(* ===== verification/Nfs_Prelude.thy ===== *)
theory Nfs_Prelude
  imports Main "HOL-Library.Word" "HOL-Library.Sublist"
begin

text \<open>
  Shared vocabulary of the development: results that may be a fault of the C abstract
  machine, their sequencing, weakest preconditions for them, and the theorem collections
  the component theories fill.

  A C function that may crash or run into undefined behaviour returns \<open>fault + 'a\<close>.
  \<open>Inl\<close> says which rule of the C machine was broken; \<open>Inr\<close> carries the value of
  a run without a fault.
\<close>

section \<open>Faults and results\<close>

datatype fault =
    NullDeref      \<comment> \<open>a NULL (or dangling) pointer is read\<close>
  | Overflow       \<comment> \<open>a write outside an array\<close>
  | Unterminated   \<comment> \<open>a string read runs past an array without a NUL byte\<close>

type_synonym 'a result = "fault + 'a"

definition andthen :: "'a result \<Rightarrow> ('a \<Rightarrow> 'b result) \<Rightarrow> 'b result" where
  "andthen m f = (case m of Inl e \<Rightarrow> Inl e | Inr x \<Rightarrow> f x)"

named_theorems result_simps \<open>rewriting of sequenced results\<close>
named_theorems wp_intros \<open>total-correctness facts of single operations\<close>

lemma andthen_Inl [simp]: "andthen (Inl e) f = Inl e"
  by (simp add: andthen_def)

lemma andthen_Inr [simp]: "andthen (Inr x) f = f x"
  by (simp add: andthen_def)

lemma andthen_eq_Inr [result_simps]:
  "andthen m f = Inr y \<longleftrightarrow> (\<exists>x. m = Inr x \<and> f x = Inr y)"
  by (cases m) auto

lemma andthen_eq_Inl [result_simps]:
  "andthen m f = Inl e \<longleftrightarrow> m = Inl e \<or> (\<exists>x. m = Inr x \<and> f x = Inl e)"
  by (cases m) auto

lemma andthen_assoc: "andthen (andthen m f) g = andthen m (\<lambda>x. andthen (f x) g)"
  by (cases m) auto

section \<open>Weakest preconditions\<close>

text \<open>
  \<open>wp P m\<close>: the computation does not fault and its value satisfies \<open>P\<close>.
  \<open>wlp P m\<close>: if it does not fault, its value satisfies \<open>P\<close>.
\<close>

definition wp :: "('a \<Rightarrow> bool) \<Rightarrow> 'a result \<Rightarrow> bool" where
  "wp P m = (case m of Inl _ \<Rightarrow> False | Inr x \<Rightarrow> P x)"

definition wlp :: "('a \<Rightarrow> bool) \<Rightarrow> 'a result \<Rightarrow> bool" where
  "wlp P m = (case m of Inl _ \<Rightarrow> True | Inr x \<Rightarrow> P x)"

lemma wp_Inl [simp]: "\<not> wp P (Inl e)"
  by (simp add: wp_def)

lemma wp_Inr [simp]: "wp P (Inr x) \<longleftrightarrow> P x"
  by (simp add: wp_def)

lemma wlp_Inl [simp]: "wlp P (Inl e)"
  by (simp add: wlp_def)

lemma wlp_Inr [simp]: "wlp P (Inr x) \<longleftrightarrow> P x"
  by (simp add: wlp_def)

lemma wp_andthen [simp]: "wp P (andthen m f) \<longleftrightarrow> wp (\<lambda>x. wp P (f x)) m"
  by (cases m) auto

lemma wlp_andthen [simp]: "wlp P (andthen m f) \<longleftrightarrow> wlp (\<lambda>x. wlp P (f x)) m"
  by (cases m) auto

lemma wp_mono: "wp P m \<Longrightarrow> (\<And>x. P x \<Longrightarrow> Q x) \<Longrightarrow> wp Q m"
  by (cases m) auto

lemma wlp_mono: "wlp P m \<Longrightarrow> (\<And>x. P x \<Longrightarrow> Q x) \<Longrightarrow> wlp Q m"
  by (cases m) auto

lemma wp_imp_wlp: "wp P m \<Longrightarrow> wlp P m"
  by (cases m) auto

lemma wp_iff: "wp P m \<longleftrightarrow> (\<exists>x. m = Inr x \<and> P x)"
  by (cases m) auto

lemma wlp_iff: "wlp P m \<longleftrightarrow> (\<forall>x. m = Inr x \<longrightarrow> P x)"
  by (cases m) auto

lemma wlp_True [simp]: "wlp (\<lambda>_. True) m"
  by (cases m) auto

lemma wlp_if [simp]:
  "wlp P (if b then m else n) \<longleftrightarrow> (if b then wlp P m else wlp P n)"
  by simp

lemma wp_if [simp]:
  "wp P (if b then m else n) \<longleftrightarrow> (if b then wp P m else wp P n)"
  by simp

section \<open>Rules for walking through a handler\<close>

lemma wlp_if_split: "(b \<Longrightarrow> wlp Q m) \<Longrightarrow> (\<not> b \<Longrightarrow> wlp Q n) \<Longrightarrow> wlp Q (if b then m else n)"
  by simp

lemma wlp_option:
  "(x = None \<Longrightarrow> wlp Q m) \<Longrightarrow> (\<And>a. x = Some a \<Longrightarrow> wlp Q (f a)) \<Longrightarrow>
     wlp Q (case x of None \<Rightarrow> m | Some a \<Rightarrow> f a)"
  by (cases x) auto

lemma wlp_prod: "(\<And>a b. wlp Q (f a b)) \<Longrightarrow> wlp Q (case x of (a, b) \<Rightarrow> f a b)"
  by (cases x) auto

lemma wlp_if_bind:
  "(b \<Longrightarrow> wlp Q (andthen m f)) \<Longrightarrow> (\<not> b \<Longrightarrow> wlp Q (andthen n f)) \<Longrightarrow>
     wlp Q (andthen (if b then m else n) f)"
  by simp

lemma wlp_bind_any: "(\<And>x. wlp Q (f x)) \<Longrightarrow> wlp Q (andthen m f)"
  by (auto simp: wlp_iff andthen_eq_Inr)

lemma wlp_bind: "wlp P m \<Longrightarrow> (\<And>x. P x \<Longrightarrow> wlp Q (f x)) \<Longrightarrow> wlp Q (andthen m f)"
  by (auto simp: wlp_iff andthen_eq_Inr)

lemma wlp_Inr_bind: "wlp Q (f x) \<Longrightarrow> wlp Q (andthen (Inr x) f)"
  by simp

section \<open>Lists updated by index\<close>

text \<open>A small amount of list theory the array loops of several components share.\<close>

lemma take_Suc_nth: "n < length xs \<Longrightarrow> take (Suc n) xs = take n xs @ [xs ! n]"
  by (rule take_Suc_conv_app_nth)

lemma take_list_update_ge: "n \<le> i \<Longrightarrow> take n (xs[i := v]) = take n xs"
  by simp

lemma list_update_eq_map_nth:
  assumes "length xs = n" and "\<And>i. i < n \<Longrightarrow> xs ! i = f i"
  shows "xs = map f [0..<n]"
  using assms by (intro nth_equalityI) auto

lemma nth_update_if: "j < length xs \<Longrightarrow> xs[i := v] ! j = (if i = j then v else xs ! j)"
  by (cases "i = j") simp_all

fun find_index :: "('a \<Rightarrow> bool) \<Rightarrow> 'a list \<Rightarrow> nat option" where
  "find_index P [] = None"
| "find_index P (x # xs) = (if P x then Some 0 else map_option Suc (find_index P xs))"

lemma find_index_Some:
  "find_index P xs = Some i \<longleftrightarrow>
     i < length xs \<and> P (xs ! i) \<and> (\<forall>j < i. \<not> P (xs ! j))"
proof (induction xs arbitrary: i)
  case Nil
  then show ?case by simp
next
  case (Cons x xs)
  show ?case
    by (cases i) (auto simp: Cons.IH nth_Cons split: nat.splits)
qed

lemma find_index_None: "find_index P xs = None \<longleftrightarrow> (\<forall>x \<in> set xs. \<not> P x)"
  by (induction xs) auto

lemma find_index_less: "find_index P xs = Some i \<Longrightarrow> i < length xs"
  by (simp add: find_index_Some)

end
