(* ===== verification/CString.thy ===== *)
theory CString
  imports Nfs_Prelude
begin

text \<open>
  The part of \<open>string.h\<close>, \<open>stdio.h\<close> and \<open>stdlib.h\<close> the program uses, on
  strings of bytes.

  A C string is the list of the bytes before its NUL. A fixed array \<open>char a[n]\<close> that
  holds a string is the list of the bytes before its first NUL, of length at most \<open>n\<close>;
  it has length \<open>n\<close> exactly when the array has no NUL at all, which is what
  \<open>strncpy\<close> leaves behind when its source does not fit. Reading such an array as a string
  is the fault \<^term>\<open>Unterminated\<close>.
\<close>

section \<open>Copying\<close>

definition c_str :: "string \<Rightarrow> string" where
  "c_str bs = takeWhile (\<lambda>c. c \<noteq> CHR 0x00) bs"

definition strncpy :: "nat \<Rightarrow> string \<Rightarrow> string" where
  "strncpy n s = take n s"

definition strcpy :: "nat \<Rightarrow> string \<Rightarrow> string result" where
  "strcpy n s = (if length s < n then Inr s else Inl Overflow)"

definition snprintf :: "nat \<Rightarrow> string \<Rightarrow> string" where
  "snprintf n s = take (n - 1) s"

definition arr_get :: "nat \<Rightarrow> string \<Rightarrow> string result" where
  "arr_get n a = (if length a < n then Inr a else Inl Unterminated)"

text \<open>
  \<open>strcmp(a, p) == 0\<close> for an array \<open>a\<close> of size \<open>n\<close>: the comparison stops at the
  first difference, so it only runs past an array without NUL when \<open>a\<close> is a prefix
  of \<open>p\<close>.
\<close>

definition arr_streq :: "nat \<Rightarrow> string \<Rightarrow> string \<Rightarrow> bool result" where
  "arr_streq n a p =
     (if length a < n then Inr (a = p)
      else if take n p = a then Inl Unterminated
      else Inr False)"

lemma strcpy_ok [simp]: "length s < n \<Longrightarrow> strcpy n s = Inr s"
  by (simp add: strcpy_def)

lemma strncpy_ok [simp]: "length s \<le> n \<Longrightarrow> strncpy n s = s"
  by (simp add: strncpy_def)

lemma snprintf_ok [simp]: "length s < n \<Longrightarrow> snprintf n s = s"
  by (simp add: snprintf_def)

lemma length_snprintf: "0 < n \<Longrightarrow> length (snprintf n s) < n"
  by (auto simp: snprintf_def)

lemma length_strncpy: "length (strncpy n s) \<le> n"
  by (simp add: strncpy_def)

lemma arr_get_ok [simp]: "length a < n \<Longrightarrow> arr_get n a = Inr a"
  by (simp add: arr_get_def)

lemma arr_streq_ok [simp]: "length a < n \<Longrightarrow> arr_streq n a p = Inr (a = p)"
  by (simp add: arr_streq_def)

lemma c_str_no_nul [simp]: "CHR 0x00 \<notin> set s \<Longrightarrow> c_str s = s"
  by (simp add: c_str_def takeWhile_eq_all_conv) metis

lemma c_str_clean: "CHR 0x00 \<notin> set (c_str s)"
  by (auto simp: c_str_def dest: set_takeWhileD)

lemma length_c_str: "length (c_str s) \<le> length s"
  by (simp add: c_str_def length_takeWhile_le)

abbreviation nl :: string where "nl \<equiv> [CHR 0x0A]"

section \<open>Searching and comparing\<close>

definition strncmp_eq :: "nat \<Rightarrow> string \<Rightarrow> string \<Rightarrow> bool" where
  "strncmp_eq n a b = (take n a = take n b)"

definition strchr :: "char \<Rightarrow> string \<Rightarrow> string option" where
  "strchr c s = (let t = dropWhile (\<lambda>x. x \<noteq> c) s in if t = [] then None else Some t)"

text \<open>\<open>strrchr\<close> as the offset of the byte it points to.\<close>

definition strrchr :: "char \<Rightarrow> string \<Rightarrow> nat option" where
  "strrchr c s =
     (if c \<in> set s then Some (length s - 1 - length (takeWhile (\<lambda>x. x \<noteq> c) (rev s))) else None)"

fun strstr :: "string \<Rightarrow> string \<Rightarrow> string option" where
  "strstr needle hay =
     (if prefix needle hay then Some hay
      else (case hay of [] \<Rightarrow> None | _ # t \<Rightarrow> strstr needle t))"

declare strstr.simps [simp del]

lemma strchr_None: "strchr c s = None \<longleftrightarrow> c \<notin> set s"
  by (auto simp: strchr_def Let_def dropWhile_eq_Nil_conv)

lemma strrchr_None: "strrchr c s = None \<longleftrightarrow> c \<notin> set s"
  by (simp add: strrchr_def)

lemma strrchr_append:
  assumes "c \<notin> set v"
  shows "strrchr c (u @ c # v) = Some (length u)"
proof -
  have "takeWhile (\<lambda>x. x \<noteq> c) (rev (u @ c # v)) = rev v"
    using assms by (subst rev_append, simp) (subst takeWhile_append2; auto)
  then show ?thesis by (simp add: strrchr_def)
qed

lemma strrchr_Some:
  "strrchr c s = Some n \<longleftrightarrow> n < length s \<and> s ! n = c \<and> c \<notin> set (drop (Suc n) s)"
proof
  assume n: "strrchr c s = Some n"
  then have "c \<in> set s" by (simp add: strrchr_def split: if_splits)
  then obtain u v where "s = u @ c # v" and "c \<notin> set v" by (meson split_list_last)
  with n strrchr_append [of c v u] show "n < length s \<and> s ! n = c \<and> c \<notin> set (drop (Suc n) s)"
    by (auto simp: nth_append)
next
  assume r: "n < length s \<and> s ! n = c \<and> c \<notin> set (drop (Suc n) s)"
  then have "s = take n s @ c # drop (Suc n) s" using id_take_nth_drop [of n s] by auto
  then have "strrchr c s = Some (length (take n s))" using r strrchr_append by metis
  with r show "strrchr c s = Some n" by simp
qed

lemma strstr_None: "strstr needle hay = None \<longleftrightarrow> \<not> sublist needle hay"
proof (induction hay)
  case Nil
  show ?case by (simp add: strstr.simps)
next
  case (Cons c hay)
  show ?case
    by (subst strstr.simps) (auto simp: Cons.IH sublist_Cons_right)
qed

lemma strstr_length: "strstr needle hay = Some rest \<Longrightarrow> length rest \<le> length hay"
proof (induction hay)
  case (Cons c hay)
  then show ?case by (subst (asm) strstr.simps) (auto split: if_splits)
qed (auto simp: strstr.simps split: if_splits)

text \<open>The text before the first occurrence does not hold another one.\<close>

lemma strstr_take:
  assumes "strstr needle hay = Some rest" and "needle \<noteq> []"
  shows "\<not> sublist needle (take (length hay - length rest) hay)"
  using assms
proof (induction hay)
  case Nil
  then show ?case by simp
next
  case (Cons c cs)
  show ?case
  proof (cases "prefix needle (c # cs)")
    case True
    with Cons.prems have "rest = c # cs" by (subst (asm) strstr.simps) simp
    with Cons.prems(2) show ?thesis by simp
  next
    case False
    with Cons.prems have rest: "strstr needle cs = Some rest" by (subst (asm) strstr.simps) simp
    then have le: "length rest \<le> length cs" by (rule strstr_length)
    have "\<not> prefix needle (c # take n cs)" for n
      using False take_is_prefix [of "Suc n" "c # cs"] prefix_order.trans by fastforce
    with Cons.IH [OF rest Cons.prems(2)] le show ?thesis
      by (simp add: Suc_diff_le sublist_Cons_right)
  qed
qed


lemma strncmp_eq_prefix:
  "length b = n \<Longrightarrow> strncmp_eq n a b \<longleftrightarrow> prefix b a"
  by (auto simp: strncmp_eq_def prefix_def) (metis append_take_drop_id)

section \<open>Tokens: \<open>sscanf("%s")\<close> and \<open>strtok\<close>\<close>

text \<open>
  Both skip a run of separators and then take the longest run without one. The
  accumulator is the token under construction.
\<close>

fun split_acc :: "(char \<Rightarrow> bool) \<Rightarrow> string \<Rightarrow> string \<Rightarrow> string list" where
  "split_acc P w [] = (if w = [] then [] else [w])"
| "split_acc P w (c # cs) =
     (if P c then (if w = [] then split_acc P [] cs else w # split_acc P [] cs)
      else split_acc P (w @ [c]) cs)"

definition split_on :: "(char \<Rightarrow> bool) \<Rightarrow> string \<Rightarrow> string list" where
  "split_on P s = split_acc P [] s"

definition isspace :: "char \<Rightarrow> bool" where
  "isspace c = (c \<in> set [CHR '' '', CHR 0x09, CHR 0x0A, CHR 0x0B, CHR 0x0C, CHR 0x0D])"

definition sscanf_words :: "string \<Rightarrow> string list" where
  "sscanf_words s = split_on isspace s"

definition strtok_all :: "char \<Rightarrow> string \<Rightarrow> string list" where
  "strtok_all d s = split_on (\<lambda>c. c = d) s"

text \<open>
  \<open>sscanf(s, "%s %s %s", a, b, c)\<close>: variables for which the input has no word keep
  what they held before.
\<close>

definition sscanf3 :: "string \<Rightarrow> string \<times> string \<times> string \<Rightarrow> string \<times> string \<times> string" where
  "sscanf3 s old =
     (case (sscanf_words s, old) of
        ([], (a, b, c)) \<Rightarrow> (a, b, c)
      | ([x], (a, b, c)) \<Rightarrow> (x, b, c)
      | ([x, y], (a, b, c)) \<Rightarrow> (x, y, c)
      | (x # y # z # _, (a, b, c)) \<Rightarrow> (x, y, z))"

text \<open>
  The first \<open>strtok(buf, d)\<close> on a buffer: the token, if there is one, and the buffer
  afterwards. The delimiter that ends the token is overwritten by a NUL, so as a string
  the buffer ends after the token.
\<close>

definition strtok_first :: "char \<Rightarrow> string \<Rightarrow> string option \<times> string" where
  "strtok_first d s =
     (let lead = takeWhile (\<lambda>c. c = d) s; t = dropWhile (\<lambda>c. c = d) s;
          tok = takeWhile (\<lambda>c. c \<noteq> d) t
      in if t = [] then (None, s) else (Some tok, lead @ tok))"

lemma split_acc_word:
  "\<forall>c \<in> set u. \<not> P c \<Longrightarrow> split_acc P w (u @ rest) = split_acc P (w @ u) rest"
  by (induction u arbitrary: w) auto

lemma split_on_sep [simp]: "P d \<Longrightarrow> split_on P (d # rest) = split_on P rest"
  by (simp add: split_on_def)

lemma split_on_Nil [simp]: "split_on P [] = []"
  by (simp add: split_on_def)

lemma split_on_word_sep:
  assumes "u \<noteq> []" and "\<forall>c \<in> set u. \<not> P c" and "P d"
  shows "split_on P (u @ d # rest) = u # split_on P rest"
  using assms by (simp add: split_on_def split_acc_word)

lemma split_on_word:
  assumes "u \<noteq> []" and "\<forall>c \<in> set u. \<not> P c"
  shows "split_on P u = [u]"
  using assms split_acc_word [of u P "[]" "[]"] by (simp add: split_on_def)

lemma split_acc_clean:
  assumes "t \<in> set (split_acc P w s)" and "\<forall>c \<in> set w. \<not> P c"
  shows "t \<noteq> [] \<and> (\<forall>c \<in> set t. \<not> P c)"
  using assms
proof (induction s arbitrary: w)
  case Nil
  then show ?case by (auto split: if_splits)
next
  case (Cons a s)
  show ?case
  proof (cases "P a")
    case True
    with Cons.prems have "t = w \<and> w \<noteq> [] \<or> t \<in> set (split_acc P [] s)"
      by (auto split: if_splits)
    with Cons.IH [of "[]"] Cons.prems(2) show ?thesis by auto
  next
    case False
    with Cons.IH [of "w @ [a]"] Cons.prems show ?thesis by auto
  qed
qed

lemma split_on_clean:
  "t \<in> set (split_on P s) \<Longrightarrow> t \<noteq> [] \<and> (\<forall>c \<in> set t. \<not> P c)"
  unfolding split_on_def by (rule split_acc_clean) auto

lemma split_acc_length: "t \<in> set (split_acc P w s) \<Longrightarrow> length t \<le> length w + length s"
proof (induction s arbitrary: w)
  case Nil
  then show ?case by (auto split: if_splits)
next
  case (Cons a s)
  then show ?case by (fastforce split: if_splits)
qed

lemma split_on_length: "t \<in> set (split_on P s) \<Longrightarrow> length t \<le> length s"
  using split_acc_length [of t P "[]" s] by (simp add: split_on_def)

lemma split_acc_first:
  "w \<noteq> [] \<Longrightarrow> split_acc P w s =
     (w @ takeWhile (\<lambda>c. \<not> P c) s) # split_on P (dropWhile (\<lambda>c. \<not> P c) s)"
  by (induction s arbitrary: w) (auto simp: split_on_def)

lemma split_on_first:
  "\<not> P c \<Longrightarrow> split_on P (c # s) =
     (c # takeWhile (\<lambda>c. \<not> P c) s) # split_on P (dropWhile (\<lambda>c. \<not> P c) s)"
  by (simp add: split_on_def [of P "c # s"] split_acc_first)

lemma strtok_first_all:
  "fst (strtok_first d s) = (case strtok_all d s of [] \<Rightarrow> None | t # _ \<Rightarrow> Some t)"
proof (induction s)
  case Nil
  show ?case by (simp add: strtok_first_def strtok_all_def)
next
  case (Cons c s)
  then show ?case
    by (cases "c = d")
      (auto simp: strtok_first_def strtok_all_def Let_def split_on_first split: if_splits)
qed

text \<open>A second \<open>strtok\<close> on a buffer that was cut by a first one finds the same token.\<close>

lemma strtok_first_idem:
  assumes "strtok_first d s = (Some t, s')"
  shows "strtok_first d s' = (Some t, s')"
proof -
  let ?lead = "takeWhile (\<lambda>c. c = d) s"
  let ?t = "dropWhile (\<lambda>c. c = d) s"
  from assms have ne: "?t \<noteq> []" and t: "t = takeWhile (\<lambda>c. c \<noteq> d) ?t" and s': "s' = ?lead @ t"
    by (auto simp: strtok_first_def Let_def split: if_splits)
  have hd: "hd ?t \<noteq> d" using hd_dropWhile [OF ne] by simp
  have tne: "t \<noteq> []" using ne hd t by (cases ?t) auto
  have clean: "\<forall>c \<in> set t. c \<noteq> d" unfolding t by (auto dest: set_takeWhileD)
  have lead: "\<forall>c \<in> set ?lead. c = d" by (auto dest: set_takeWhileD)
  have "takeWhile (\<lambda>c. c = d) t = []" and "dropWhile (\<lambda>c. c = d) t = t"
    using tne clean by (cases t; auto)+
  moreover have "takeWhile (\<lambda>c. c = d) (?lead @ t) = ?lead @ takeWhile (\<lambda>c. c = d) t"
    using lead by (intro takeWhile_append2) auto
  moreover have "dropWhile (\<lambda>c. c = d) (?lead @ t) = dropWhile (\<lambda>c. c = d) t"
    using lead by (intro dropWhile_append2) auto
  moreover have "takeWhile (\<lambda>c. c \<noteq> d) t = t"
    using clean by (simp add: takeWhile_eq_all_conv)
  ultimately show ?thesis
    using tne by (simp add: s' strtok_first_def Let_def)
qed

lemma sscanf3_three:
  "sscanf_words s = [x, y, z] \<Longrightarrow> sscanf3 s old = (x, y, z)"
  by (simp add: sscanf3_def split: prod.splits)

lemma sscanf3_two:
  "sscanf_words s = [x, y] \<Longrightarrow> sscanf3 s (a, b, c) = (x, y, c)"
  by (simp add: sscanf3_def)

text \<open>A request line made of blank-free words is read back word by word.\<close>

definition word :: "string \<Rightarrow> bool" where
  "word w \<longleftrightarrow> w \<noteq> [] \<and> list_all (\<lambda>c. \<not> isspace c) w"

lemma isspace_blank [simp]: "isspace CHR '' ''"
  by (simp add: isspace_def)

lemma sscanf_words_one: "word a \<Longrightarrow> sscanf_words a = [a]"
  unfolding sscanf_words_def word_def by (intro split_on_word) (auto simp: list_all_iff)

lemma sscanf_words_Cons:
  "word a \<Longrightarrow> sscanf_words (a @ CHR '' '' # rest) = a # sscanf_words rest"
  unfolding sscanf_words_def word_def
  by (intro split_on_word_sep) (auto simp: list_all_iff)

section \<open>Numbers: \<open>%d\<close> and \<open>atoi\<close>\<close>

definition digit :: "nat \<Rightarrow> char" where
  "digit d = char_of (48 + d)"

fun dec_nat :: "nat \<Rightarrow> string" where
  "dec_nat n = (if n < 10 then [digit n] else dec_nat (n div 10) @ [digit (n mod 10)])"

declare dec_nat.simps [simp del]

definition dec :: "int \<Rightarrow> string" where
  "dec i = (if i < 0 then CHR ''-'' # dec_nat (nat (- i)) else dec_nat (nat i))"

definition isdigit :: "char \<Rightarrow> bool" where
  "isdigit c = (48 \<le> (of_char c :: nat) \<and> (of_char c :: nat) \<le> 57)"

fun atoi_digits :: "nat \<Rightarrow> string \<Rightarrow> nat" where
  "atoi_digits acc [] = acc"
| "atoi_digits acc (c # cs) =
     (if isdigit c then atoi_digits (10 * acc + (of_char c - 48)) cs else acc)"

definition atoi :: "string \<Rightarrow> int" where
  "atoi s =
     (case dropWhile isspace s of
        [] \<Rightarrow> 0
      | c # cs \<Rightarrow>
          if c = CHR ''-'' then - int (atoi_digits 0 cs)
          else if c = CHR ''+'' then int (atoi_digits 0 cs)
          else int (atoi_digits 0 (c # cs)))"

lemma of_char_digit: "d < 10 \<Longrightarrow> (of_char (digit d) :: nat) = 48 + d"
  by (simp add: digit_def)

lemma isdigit_digit: "d < 10 \<Longrightarrow> isdigit (digit d)"
  by (simp add: isdigit_def of_char_digit)

lemma atoi_digits_append:
  "\<forall>c \<in> set u. isdigit c \<Longrightarrow> atoi_digits acc (u @ v) = atoi_digits (atoi_digits acc u) v"
  by (induction u arbitrary: acc) auto

lemma dec_nat_digits: "\<forall>c \<in> set (dec_nat n). isdigit c"
proof (induction n rule: dec_nat.induct)
  case (1 n)
  then show ?case
    by (subst dec_nat.simps) (auto simp: isdigit_digit)
qed

lemma dec_nat_nonempty: "dec_nat n \<noteq> []"
  by (subst dec_nat.simps) simp

lemma atoi_digits_dec_nat: "atoi_digits 0 (dec_nat n) = n"
proof (induction n rule: dec_nat.induct)
  case (1 n)
  show ?case
  proof (cases "n < 10")
    case True
    then show ?thesis
      by (subst dec_nat.simps) (simp add: isdigit_digit of_char_digit)
  next
    case False
    have "dec_nat n = dec_nat (n div 10) @ [digit (n mod 10)]"
      using False by (subst dec_nat.simps) simp
    then show ?thesis
      using 1 [OF False] dec_nat_digits [of "n div 10"]
      by (simp add: atoi_digits_append isdigit_digit of_char_digit)
  qed
qed

lemma isdigit_not: "isdigit c \<Longrightarrow> \<not> isspace c \<and> c \<noteq> CHR ''-'' \<and> c \<noteq> CHR ''+''"
  by (auto simp: isdigit_def isspace_def)

lemma atoi_nonneg:
  assumes "s \<noteq> []" and "\<forall>c \<in> set s. isdigit c"
  shows "atoi s = int (atoi_digits 0 s)"
  using assms by (cases s) (auto simp: atoi_def dest: isdigit_not)

theorem atoi_dec: "atoi (dec i) = i"
proof (cases "i < 0")
  case True
  then show ?thesis
    by (simp add: dec_def atoi_def isspace_def atoi_digits_dec_nat)
next
  case False
  then show ?thesis
    by (simp add: dec_def atoi_nonneg dec_nat_nonempty dec_nat_digits atoi_digits_dec_nat)
qed

lemma word_dec: "word (dec i)"
proof -
  have "list_all (\<lambda>c. \<not> isspace c) (dec_nat n)" for n
    using dec_nat_digits [of n] by (auto simp: list_all_iff dest: isdigit_not)
  then show ?thesis
    by (simp add: word_def dec_def dec_nat_nonempty isspace_def)
qed

end
