(* ===== verification/Utils.thy ===== *)
theory Utils
  imports CString
begin

text \<open>
  The data every program of the system shares (\<open>common/utils.h\<close>) and the codes of
  \<open>naming_server/naming_server.h\<close>: the file record handed to clients and the
  registration record of a storage server.

  Character arrays are strings in the sense of \<^theory_text>\<open>CString\<close>; ports are C \<open>int\<close>s,
  which the program only stores, compares and prints. The command queue of a storage
  server, \<open>commands\<close> with \<open>command_count\<close>, is the list of its used rows: rows from
  \<open>command_count\<close> on are never read.
\<close>

section \<open>Sizes and codes\<close>

abbreviation MAX_FILE_PATH_SIZE :: nat where "MAX_FILE_PATH_SIZE \<equiv> 256"
abbreviation MAX_CONNECTIONS :: nat where "MAX_CONNECTIONS \<equiv> 10"
abbreviation BUFFER_SIZE :: nat where "BUFFER_SIZE \<equiv> 4096"
abbreviation INET_ADDRSTRLEN :: nat where "INET_ADDRSTRLEN \<equiv> 16"
abbreviation MAX_COMMANDS :: nat where "MAX_COMMANDS \<equiv> 1000"

definition NS_PORT :: int where "NS_PORT = 8081"

datatype peer_type = SS | CLIENT

datatype request_type = CREATE | WRITE | INFO | COPY | LIST | READ | STREAM

fun request_code :: "request_type \<Rightarrow> int" where
  "request_code CREATE = 1"
| "request_code WRITE = 2"
| "request_code INFO = 3"
| "request_code COPY = 4"
| "request_code LIST = 5"
| "request_code READ = 6"
| "request_code STREAM = 7"

definition FILE_NOT_FOUND :: int where "FILE_NOT_FOUND = 404"
definition SERVER_NOT_FOUND :: int where "SERVER_NOT_FOUND = 403"
definition OK :: int where "OK = 200"

section \<open>Records\<close>

record FILEINFO =
  fi_ip :: string
  fi_port_client :: int
  fi_file_path :: string

definition empty_file_info :: FILEINFO where
  "empty_file_info = \<lparr>fi_ip = '''', fi_port_client = 0, fi_file_path = ''''\<rparr>"

record StorageServerInfo =
  ss_ip :: string
  ss_port_nm :: int
  ss_port_client :: int
  ss_accessible_paths :: string
  ss_ss_port :: int
  ss_is_active :: int
  ss_backup_ip1 :: string
  ss_backup_port1 :: int
  ss_backup_ip2 :: string
  ss_backup_port2 :: int
  ss_commands :: "string list"

definition ss_command_count :: "StorageServerInfo \<Rightarrow> nat" where
  "ss_command_count s = length (ss_commands s)"

text \<open>A file record whose path array holds a terminated string.\<close>

definition info_ok :: "FILEINFO \<Rightarrow> bool" where
  "info_ok fi \<longleftrightarrow> length (fi_file_path fi) < MAX_FILE_PATH_SIZE"

end
