(* ===== verification/World.thy ===== *)
theory World
  imports Utils
begin

text \<open>
  The outside of a process: sockets, the log file and the contents of uninitialised
  stack arrays.

  A process state extends \<^theory_text>\<open>world\<close>, whose only field is the trace of the system
  calls made so far. Everything the operating system and the peers decide is an
  environment \<^theory_text>\<open>env\<close>, an argument of every operation that makes a system call: a
  function of the trace so far. Theorems quantify over all environments, so a connection
  may be refused and a peer may answer anything, at any moment.
\<close>

section \<open>Events\<close>

datatype chan =
    Conn nat   \<comment> \<open>an accepted connection, by its descriptor\<close>
  | Peer nat   \<comment> \<open>a connection this process opened\<close>

text \<open>
  What one \<open>send\<close> transmits: the bytes of a string, a file record, a registration
  record, or an array of the given size that holds a string and is otherwise stale.
\<close>

datatype payload =
    Text string
  | InfoMsg FILEINFO
  | RegisterMsg StorageServerInfo
  | ArrayMsg nat string

datatype event =
    Connected nat string "16 word"
  | Sent chan payload
  | Received chan string
  | Closed chan
  | Logged string
  | SysFail string
  | Syscall string string

text \<open>
  \<open>Syscall\<close> records a call on the file system or the shell, \<open>SysFail\<close> a call that failed.
\<close>

record world =
  trace :: "event list"

record env =
  e_socket :: "event list \<Rightarrow> bool"
  e_pton :: "string \<Rightarrow> bool"
  e_connect :: "event list \<Rightarrow> string \<Rightarrow> 16 word \<Rightarrow> bool"
  e_recv :: "event list \<Rightarrow> chan \<Rightarrow> string option"
  e_recv_info :: "event list \<Rightarrow> chan \<Rightarrow> StorageServerInfo"
  e_log :: "event list \<Rightarrow> bool"
  e_junk :: "string \<Rightarrow> string"
  e_getcwd :: "event list \<Rightarrow> string option"
  e_stat :: "event list \<Rightarrow> string \<Rightarrow> bool option"

definition emit :: "event \<Rightarrow> 'a world_scheme \<Rightarrow> 'a world_scheme" where
  "emit ev s = s\<lparr>trace := trace s @ [ev]\<rparr>"

lemma trace_emit [simp]: "trace (emit ev s) = trace s @ [ev]"
  by (simp add: emit_def)

section \<open>Sockets\<close>

text \<open>\<open>htons\<close> of a C \<open>int\<close> keeps its low 16 bits.\<close>

definition htons :: "int \<Rightarrow> 16 word" where
  "htons p = word_of_int p"

datatype dialled = No_socket | Bad_address | Refused | Dialled nat

text \<open>
  The checked sequence \<open>socket\<close>, \<open>inet_pton\<close>, \<open>connect\<close> that the program repeats
  wherever it opens a connection. A connection is named by the length of the trace when
  it was opened, so every connection of a run has its own name.
\<close>

definition dial :: "'e env_scheme \<Rightarrow> string \<Rightarrow> int \<Rightarrow> 'a world_scheme \<Rightarrow> dialled \<times> 'a world_scheme" where
  "dial E ip port s =
     (if \<not> e_socket E (trace s) then (No_socket, emit (SysFail ''socket'') s)
      else if \<not> e_pton E ip then (Bad_address, emit (SysFail ''inet_pton'') s)
      else if \<not> e_connect E (trace s) ip (htons port) then (Refused, emit (SysFail ''connect'') s)
      else (Dialled (length (trace s)), emit (Connected (length (trace s)) ip (htons port)) s))"

lemma wlp_dialled:
  "wlp Q a \<Longrightarrow> wlp Q b \<Longrightarrow> wlp Q c \<Longrightarrow> (\<And>k. wlp Q (f k)) \<Longrightarrow>
     wlp Q (case d of No_socket \<Rightarrow> a | Bad_address \<Rightarrow> b | Refused \<Rightarrow> c | Dialled k \<Rightarrow> f k)"
  by (cases d) auto

text \<open>
  The unchecked sequence of the copy handlers: neither \<open>socket\<close> nor \<open>inet_pton\<close> is
  tested. Without a socket \<open>connect\<close> fails; with an address that does not parse, the
  address structure keeps its indeterminate content.
\<close>

definition dial_unchecked :: "'e env_scheme \<Rightarrow> string \<Rightarrow> int \<Rightarrow> 'a world_scheme \<Rightarrow> nat option \<times> 'a world_scheme" where
  "dial_unchecked E ip port s =
     (let addr = (if e_pton E ip then ip else e_junk E ''sin_addr'')
      in if e_socket E (trace s) \<and> e_connect E (trace s) addr (htons port)
         then (Some (length (trace s)), emit (Connected (length (trace s)) addr (htons port)) s)
         else (None, emit (SysFail ''connect'') s))"

definition net_send :: "chan \<Rightarrow> payload \<Rightarrow> 'a world_scheme \<Rightarrow> 'a world_scheme" where
  "net_send c p s = emit (Sent c p) s"

definition send_text :: "chan \<Rightarrow> string \<Rightarrow> 'a world_scheme \<Rightarrow> 'a world_scheme" where
  "send_text c t s = net_send c (Text t) s"

definition net_close :: "chan \<Rightarrow> 'a world_scheme \<Rightarrow> 'a world_scheme" where
  "net_close c s = emit (Closed c) s"

text \<open>\<open>recv(c, buf, n)\<close>: \<^term>\<open>None\<close> is a negative result, the empty string a closed peer.\<close>

definition net_recv :: "'e env_scheme \<Rightarrow> chan \<Rightarrow> nat \<Rightarrow> 'a world_scheme \<Rightarrow> string option \<times> 'a world_scheme" where
  "net_recv E c n s =
     (case e_recv E (trace s) c of
        None \<Rightarrow> (None, emit (SysFail ''recv'') s)
      | Some bs \<Rightarrow> (Some (take n bs), emit (Received c (take n bs)) s))"

text \<open>
  \<open>read(c, &info, sizeof info)\<close> into a registration record: the content of the record
  afterwards, whatever part of it arrived.
\<close>

definition net_read_info ::
  "'e env_scheme \<Rightarrow> chan \<Rightarrow> 'a world_scheme \<Rightarrow> StorageServerInfo \<times> 'a world_scheme" where
  "net_read_info E c s = (e_recv_info E (trace s) c, emit (Received c ''StorageServerInfo'') s)"

text \<open>
  \<open>buf[n] = 0\<close> after \<open>n\<close> bytes were received into \<open>buf[size]\<close>: outside the array when
  the buffer was filled completely. The result is the string in the buffer.
\<close>

definition terminate :: "nat \<Rightarrow> string \<Rightarrow> string result" where
  "terminate n bs = (if length bs < n then Inr (c_str bs) else Inl Overflow)"

lemma terminate_ok [simp]: "length bs < n \<Longrightarrow> terminate n bs = Inr (c_str bs)"
  by (simp add: terminate_def)

lemma trace_net_send [simp]: "trace (net_send c p s) = trace s @ [Sent c p]"
  by (simp add: net_send_def)

lemma trace_send_text [simp]: "trace (send_text c t s) = trace s @ [Sent c (Text t)]"
  by (simp add: send_text_def)

lemma trace_net_close [simp]: "trace (net_close c s) = trace s @ [Closed c]"
  by (simp add: net_close_def)

section \<open>What a connection has been sent\<close>

fun sent_on :: "chan \<Rightarrow> event list \<Rightarrow> payload list" where
  "sent_on c [] = []"
| "sent_on c (Sent d p # es) = (if d = c then p # sent_on c es else sent_on c es)"
| "sent_on c (_ # es) = sent_on c es"

lemma sent_on_append [simp]: "sent_on c (es @ fs) = sent_on c es @ sent_on c fs"
  by (induction es rule: sent_on.induct) auto

definition replies :: "chan \<Rightarrow> 'a world_scheme \<Rightarrow> payload list" where
  "replies c s = sent_on c (trace s)"

lemma replies_emit [simp]:
  "replies c (emit ev s) = replies c s @ sent_on c [ev]"
  by (simp add: replies_def)

lemma replies_net_send [simp]:
  "replies c (net_send d p s) = replies c s @ (if d = c then [p] else [])"
  by (simp add: net_send_def)

lemma replies_send_text [simp]:
  "replies c (send_text d t s) = replies c s @ (if d = c then [Text t] else [])"
  by (simp add: send_text_def)

lemma replies_net_close [simp]: "replies c (net_close d s) = replies c s"
  by (simp add: net_close_def)

lemma replies_dial [simp]: "replies c (snd (dial E ip port s)) = replies c s"
  by (simp add: dial_def)

lemma replies_dial_eq: "dial E ip port s = (d, s') \<Longrightarrow> replies c s' = replies c s"
  using replies_dial [of c E ip port s] by simp

lemma replies_net_recv [simp]: "replies c (snd (net_recv E d n s)) = replies c s"
  by (simp add: net_recv_def split: option.splits)

lemma replies_net_recv_eq: "net_recv E d n s = (r, s') \<Longrightarrow> replies c s' = replies c s"
  using replies_net_recv [of c E d n s] by simp

section \<open>What reached which peer\<close>

text \<open>
  The messages sent on connections this process opened, in order, each with the address it
  was opened to.
\<close>

type_synonym address = "string \<times> 16 word"

fun peers :: "(nat \<rightharpoonup> address) \<Rightarrow> event list \<Rightarrow> (nat \<rightharpoonup> address)" where
  "peers m [] = m"
| "peers m (Connected k ip port # es) = peers (m(k \<mapsto> (ip, port))) es"
| "peers m (_ # es) = peers m es"

fun deliveries :: "(nat \<rightharpoonup> address) \<Rightarrow> event list \<Rightarrow> (address option \<times> payload) list" where
  "deliveries m [] = []"
| "deliveries m (Connected k ip port # es) = deliveries (m(k \<mapsto> (ip, port))) es"
| "deliveries m (Sent (Peer k) p # es) = (m k, p) # deliveries m es"
| "deliveries m (_ # es) = deliveries m es"

definition delivered :: "'a world_scheme \<Rightarrow> (address option \<times> payload) list" where
  "delivered s = deliveries Map.empty (trace s)"

definition peer_map :: "'a world_scheme \<Rightarrow> (nat \<rightharpoonup> address)" where
  "peer_map s = peers Map.empty (trace s)"

lemma peers_append [simp]: "peers m (es @ fs) = peers (peers m es) fs"
proof (induction es arbitrary: m)
  case (Cons e es)
  then show ?case by (cases "(m, e # es)" rule: peers.cases) (auto simp: fun_upd_def)
qed simp

lemma deliveries_append [simp]:
  "deliveries m (es @ fs) = deliveries m es @ deliveries (peers m es) fs"
proof (induction es arbitrary: m)
  case (Cons e es)
  then show ?case by (cases "(m, e # es)" rule: deliveries.cases) (auto simp: fun_upd_def)
qed simp

lemma delivered_send [simp]:
  "delivered (send_text (Peer k) t s) = delivered s @ [(peer_map s k, Text t)]"
  by (simp add: delivered_def peer_map_def)

lemma delivered_close [simp]: "delivered (net_close c s) = delivered s"
  by (simp add: delivered_def)

lemma peer_map_send [simp]: "peer_map (send_text c t s) = peer_map s"
  by (simp add: peer_map_def)

lemma delivered_recv: "net_recv E c n s = (r, s') \<Longrightarrow> delivered s' = delivered s \<and> peer_map s' = peer_map s"
  by (auto simp: net_recv_def delivered_def peer_map_def split: option.splits)

lemma delivered_dial:
  assumes "dial E ip port s = (d, s')"
  shows "delivered s' = delivered s"
    and "d = Dialled k \<Longrightarrow> peer_map s' k = Some (ip, htons port)"
  using assms by (auto simp: dial_def delivered_def peer_map_def split: if_splits)

section \<open>Calls that failed\<close>

definition failures :: "'a world_scheme \<Rightarrow> nat" where
  "failures s = length (filter (\<lambda>e. case e of SysFail _ \<Rightarrow> True | _ \<Rightarrow> False) (trace s))"

lemma failures_emit:
  "failures (emit ev s) = failures s + (case ev of SysFail _ \<Rightarrow> 1 | _ \<Rightarrow> 0)"
  by (simp add: failures_def split: event.split)

lemma failures_io [simp]:
  "failures (net_send c p s) = failures s" "failures (send_text c m s) = failures s"
  "failures (net_close c s) = failures s"
  by (simp_all add: net_send_def send_text_def net_close_def failures_emit)

lemma failures_dial:
  "dial E ip port s = (d, s') \<Longrightarrow> failures s' = failures s + (case d of Dialled _ \<Rightarrow> 0 | _ \<Rightarrow> 1)"
  by (auto simp: dial_def failures_emit split: if_splits)

lemma failures_recv: "net_recv E c n s = (r, s') \<Longrightarrow> failures s' = failures s + (if r = None then 1 else 0)"
  by (auto simp: net_recv_def failures_emit split: option.splits)

section \<open>Relations between the states of a run\<close>

text \<open>
  A relation between the state at the start and the state at the end of a computation, that is
  reflexive and transitive, and the rules that follow it along the calls of a handler.
\<close>

locale state_relation =
  fixes R :: "'s \<Rightarrow> 's \<Rightarrow> bool"
  assumes R_refl: "R s s"
    and R_trans: "R s t \<Longrightarrow> R t u \<Longrightarrow> R s u"
begin

lemma R_snd: "(\<And>r t'. f = (r, t') \<Longrightarrow> R s t') \<Longrightarrow> R s (snd f)"
  by (cases f) simp

lemma R_if: "R s t \<Longrightarrow> R s u \<Longrightarrow> R s (if b then t else u)"
  by simp

text \<open>Rules that walk through a handler along its calls.\<close>

lemma wlp_call:
  assumes "R s (snd f)" and "\<And>r t'. R s t' \<Longrightarrow> wlp Q (g r t')"
  shows "wlp Q (case f of (r, t') \<Rightarrow> g r t')"
  using assms by (cases f) auto

lemma R_call:
  assumes "R s (snd f)" and "\<And>r t'. R s t' \<Longrightarrow> R s (g r t')"
  shows "R s (case f of (r, t') \<Rightarrow> g r t')"
  using assms by (cases f) auto

lemma R_snd_call:
  assumes "R s (snd f)" and "\<And>r t'. R s t' \<Longrightarrow> R s (snd (g r t'))"
  shows "R s (snd (case f of (r, t') \<Rightarrow> g r t'))"
  using assms by (cases f) auto

lemma R_snd_if: "R s (snd f) \<Longrightarrow> R s (snd g) \<Longrightarrow> R s (snd (if b then f else g))"
  by simp

lemma R_snd_pair: "R s t \<Longrightarrow> R s (snd (r, t))"
  by simp

lemma R_option: "R s m \<Longrightarrow> (\<And>a. R s (f a)) \<Longrightarrow> R s (case x of None \<Rightarrow> m | Some a \<Rightarrow> f a)"
  by (cases x) auto

lemma R_dialled:
  "R s a \<Longrightarrow> R s b \<Longrightarrow> R s c \<Longrightarrow> (\<And>k. R s (f k)) \<Longrightarrow>
     R s (case d of No_socket \<Rightarrow> a | Bad_address \<Rightarrow> b | Refused \<Rightarrow> c | Dialled k \<Rightarrow> f k)"
  by (cases d) auto

lemma wlp_pair_bind:
  assumes "wlp (\<lambda>(r, t). R s t) m" and "\<And>r t. R s t \<Longrightarrow> wlp Q (f (r, t))"
  shows "wlp Q (andthen m f)"
  using assms by (auto simp: wlp_iff andthen_eq_Inr)

lemma wlp_state_bind:
  assumes "wlp (R s) m" and "\<And>t. R s t \<Longrightarrow> wlp Q (f t)"
  shows "wlp Q (andthen m f)"
  using assms by (auto simp: wlp_iff andthen_eq_Inr)

lemma wlp_done: "R s t \<Longrightarrow> wlp (R s) (Inr t)"
  by simp

lemma wlp_pair_done: "R s t \<Longrightarrow> wlp (\<lambda>(r, u). R s u) (Inr (r, t))"
  by simp

lemma wlp_bool: "wlp Q m \<Longrightarrow> wlp Q n \<Longrightarrow> wlp Q (case b of True \<Rightarrow> m | False \<Rightarrow> n)"
  by (cases b) auto

lemmas walk_through = R_if wlp_done wlp_pair_done wlp_option wlp_if_split wlp_dialled wlp_Inl
  R_snd_call R_snd_if R_snd_pair wlp_call R_call R_option R_dialled

end

section \<open>A peer that follows a script\<close>

text \<open>
  The messages a connection will bring, one per \<open>recv\<close>, and then the end of the stream. How many
  were taken already is read off the trace.
\<close>

fun received :: "chan \<Rightarrow> event list \<Rightarrow> nat" where
  "received c [] = 0"
| "received c (Received d m # es) = (if d = c then Suc (received c es) else received c es)"
| "received c (_ # es) = received c es"

definition script :: "'e env_scheme \<Rightarrow> chan \<Rightarrow> string list \<Rightarrow> bool" where
  "script E c ms \<longleftrightarrow> (\<forall>tr. e_recv E tr c =
     Some (if received c tr < length ms then ms ! received c tr else ''''))"

lemma received_append [simp]: "received c (es @ fs) = received c es + received c fs"
  by (induction es rule: received.induct) auto

lemma script_recv:
  "script E c ms \<Longrightarrow> net_recv E c n s =
     (let m = take n (if received c (trace s) < length ms then ms ! received c (trace s) else '''')
      in (Some m, emit (Received c m) s))"
  by (simp add: script_def net_recv_def Let_def)

end
