(* ===== verification/Cache.thy ===== *)
theory Cache
  imports Utils "HOL-Library.Multiset"
begin

text \<open>
  The lookup cache of the naming server (\<open>naming_utils.c\<close>, lines 23 to 83): an array of
  eight entries in order of recency with a fill count, its three operations as the loops
  over the array they are, and the proof that they implement a bounded move-to-front list.
\<close>

section \<open>State and operations\<close>

abbreviation CACHE_SIZE :: nat where "CACHE_SIZE \<equiv> 8"

record CacheEntry =
  ce_path :: string
  ce_info :: FILEINFO

record lru_cache =
  slots :: "CacheEntry list"
  cache_count :: nat

definition empty_entry :: CacheEntry where
  "empty_entry = \<lparr>ce_path = '''', ce_info = empty_file_info\<rparr>"

definition empty_cache :: lru_cache where
  "empty_cache = \<lparr>slots = replicate CACHE_SIZE empty_entry, cache_count = 0\<rparr>"

text \<open>\<open>for (j = i; j > 0; j--) cache[j] = cache[j - 1];\<close>\<close>

fun shift_right :: "nat \<Rightarrow> 'a list \<Rightarrow> 'a list" where
  "shift_right 0 xs = xs"
| "shift_right (Suc j) xs = shift_right j (xs[Suc j := xs ! j])"

text \<open>\<open>n\<close> rounds of \<open>for (j = i; \<dots>; j++) cache[j] = cache[j + 1];\<close>\<close>

fun shift_left :: "nat \<Rightarrow> nat \<Rightarrow> 'a list \<Rightarrow> 'a list" where
  "shift_left j 0 xs = xs"
| "shift_left j (Suc n) xs = shift_left (Suc j) n (xs[j := xs ! Suc j])"

text \<open>
  The search loops run over the remaining indices \<open>i, \<dots>, cache_count - 1\<close>; the second
  argument counts them. A hit is reported as \<^const>\<open>True\<close>: the pointer returned is always
  the one to the entry at index 0.
\<close>

fun find_in_cache_from :: "string \<Rightarrow> nat \<Rightarrow> nat \<Rightarrow> lru_cache \<Rightarrow> (bool \<times> lru_cache) result" where
  "find_in_cache_from path i 0 c = Inr (False, c)"
| "find_in_cache_from path i (Suc n) c =
     andthen (arr_streq MAX_FILE_PATH_SIZE (ce_path (slots c ! i)) path) (\<lambda>eq.
       if eq then
         (let temp = slots c ! i
          in Inr (True, c\<lparr>slots := (shift_right i (slots c))[0 := temp]\<rparr>))
       else find_in_cache_from path (Suc i) n c)"

definition find_in_cache :: "string \<Rightarrow> lru_cache \<Rightarrow> (bool \<times> lru_cache) result" where
  "find_in_cache path c = find_in_cache_from path 0 (cache_count c) c"

definition add_to_cache :: "string \<Rightarrow> FILEINFO \<Rightarrow> lru_cache \<Rightarrow> lru_cache" where
  "add_to_cache path info c =
     (let n = (if cache_count c = CACHE_SIZE then cache_count c - 1 else cache_count c);
          moved = shift_right n (slots c);
          entry = \<lparr>ce_path = strncpy MAX_FILE_PATH_SIZE path, ce_info = info\<rparr>
      in \<lparr>slots = moved[0 := entry], cache_count = n + 1\<rparr>)"

fun remove_from_cache_from :: "string \<Rightarrow> nat \<Rightarrow> nat \<Rightarrow> lru_cache \<Rightarrow> lru_cache result" where
  "remove_from_cache_from path i 0 c = Inr c"
| "remove_from_cache_from path i (Suc n) c =
     andthen (arr_streq MAX_FILE_PATH_SIZE (ce_path (slots c ! i)) path) (\<lambda>eq.
       if eq then
         Inr \<lparr>slots = shift_left i (cache_count c - 1 - i) (slots c),
              cache_count = cache_count c - 1\<rparr>
       else remove_from_cache_from path (Suc i) n c)"

definition remove_from_cache :: "string \<Rightarrow> lru_cache \<Rightarrow> lru_cache result" where
  "remove_from_cache path c = remove_from_cache_from path 0 (cache_count c) c"

section \<open>The array loops\<close>

lemma shift_right_eq:
  "i < length xs \<Longrightarrow> shift_right i xs = hd xs # take i xs @ drop (Suc i) xs"
proof (induction i arbitrary: xs)
  case 0
  then show ?case by (cases xs) auto
next
  case (Suc j)
  let ?ys = "xs[Suc j := xs ! j]"
  have len: "j < length ?ys" and ne: "xs \<noteq> []" using Suc.prems by auto
  have "drop (Suc j) ?ys = xs ! j # drop (Suc (Suc j)) xs"
    using Suc.prems by (simp add: Cons_nth_drop_Suc [symmetric] drop_update_cancel)
  moreover have "hd ?ys = hd xs" using ne by (cases xs) auto
  moreover have "take (Suc j) xs = take j xs @ [xs ! j]"
    using Suc.prems by (simp add: take_Suc_nth)
  ultimately show ?case
    using Suc.IH [OF len] by simp
qed

lemma shift_right_front:
  "i < length xs \<Longrightarrow> (shift_right i xs)[0 := v] = v # take i xs @ drop (Suc i) xs"
  by (simp add: shift_right_eq)

lemma shift_left_eq:
  "j + n < length xs \<Longrightarrow>
     shift_left j n xs = take j xs @ take n (drop (Suc j) xs) @ drop (j + n) xs"
proof (induction n arbitrary: j xs)
  case 0
  then show ?case by simp
next
  case (Suc n)
  let ?ys = "xs[j := xs ! Suc j]"
  have len: "Suc j + n < length ?ys" using Suc.prems by simp
  have "take (Suc j) ?ys = take j xs @ [xs ! Suc j]"
    using Suc.prems by (simp add: take_Suc_nth)
  moreover have "drop (Suc (Suc j)) ?ys = drop (Suc (Suc j)) xs"
    and "drop (Suc j + n) ?ys = drop (j + Suc n) xs" by simp_all
  moreover have "take (Suc n) (drop (Suc j) xs) = xs ! Suc j # take n (drop (Suc (Suc j)) xs)"
    using Suc.prems by (simp add: Cons_nth_drop_Suc [symmetric])
  ultimately show ?case
    using Suc.IH [OF len] by simp
qed

section \<open>Abstract cache: a bounded move-to-front list\<close>

type_synonym lru = "(string \<times> FILEINFO) list"

definition lru_touch :: "string \<Rightarrow> lru \<Rightarrow> lru option" where
  "lru_touch p l =
     map_option (\<lambda>i. l ! i # take i l @ drop (Suc i) l) (find_index (\<lambda>e. fst e = p) l)"

definition lru_add :: "string \<Rightarrow> FILEINFO \<Rightarrow> lru \<Rightarrow> lru" where
  "lru_add p v l = (p, v) # take (CACHE_SIZE - 1) l"

definition lru_remove :: "string \<Rightarrow> lru \<Rightarrow> lru" where
  "lru_remove p l =
     (case find_index (\<lambda>e. fst e = p) l of None \<Rightarrow> l | Some i \<Rightarrow> take i l @ drop (Suc i) l)"

definition entry_pair :: "CacheEntry \<Rightarrow> string \<times> FILEINFO" where
  "entry_pair e = (ce_path e, ce_info e)"

definition live :: "lru_cache \<Rightarrow> lru" where
  "live c = map entry_pair (take (cache_count c) (slots c))"

text \<open>
  The representation invariant: eight slots, a count within them, terminated paths in the
  live entries and no path twice.
\<close>

definition cache_wf :: "lru_cache \<Rightarrow> bool" where
  "cache_wf c \<longleftrightarrow>
     length (slots c) = CACHE_SIZE \<and> cache_count c \<le> CACHE_SIZE \<and>
     list_all (\<lambda>e. length (fst e) < MAX_FILE_PATH_SIZE) (live c) \<and>
     distinct (map fst (live c))"

lemma cache_wf_empty: "cache_wf empty_cache"
  by (simp add: cache_wf_def empty_cache_def live_def)

lemma live_empty [simp]: "live empty_cache = []"
  by (simp add: live_def empty_cache_def)

lemma length_live: "cache_wf c \<Longrightarrow> length (live c) = cache_count c"
  by (simp add: live_def cache_wf_def)

lemma live_nth:
  "cache_wf c \<Longrightarrow> i < cache_count c \<Longrightarrow> live c ! i = entry_pair (slots c ! i)"
  by (simp add: live_def cache_wf_def)

lemma live_path_bound:
  "cache_wf c \<Longrightarrow> i < cache_count c \<Longrightarrow> length (ce_path (slots c ! i)) < MAX_FILE_PATH_SIZE"
  using live_nth [of c i] length_live [of c] nth_mem [of i "live c"]
  by (force simp: cache_wf_def list_all_iff entry_pair_def)

lemma find_in_cache_from_eq:
  assumes "cache_wf c" and "i + n = cache_count c"
  shows "find_in_cache_from path i n c =
    (case find_index (\<lambda>e. fst e = path) (drop i (live c)) of
       None \<Rightarrow> Inr (False, c)
     | Some k \<Rightarrow> Inr (True, c\<lparr>slots := slots c ! (i + k) # take (i + k) (slots c)
                                  @ drop (Suc (i + k)) (slots c)\<rparr>))"
  using assms
proof (induction n arbitrary: i)
  case 0
  then show ?case by (simp add: length_live)
next
  case (Suc n)
  then have i: "i < cache_count c" and le: "cache_count c \<le> length (slots c)"
    by (auto simp: cache_wf_def)
  have drop: "drop i (live c) = entry_pair (slots c ! i) # drop (Suc i) (live c)"
    using Suc.prems i length_live [of c] live_nth [of c i]
    by (metis Cons_nth_drop_Suc)
  show ?case
    using Suc.IH [of "Suc i"] Suc.prems i le live_path_bound [OF Suc.prems(1) i]
    by (auto simp: drop entry_pair_def shift_right_front Let_def split: option.splits)
qed

lemma find_in_cache_eq:
  assumes "cache_wf c"
  shows "find_in_cache path c =
    (case find_index (\<lambda>e. fst e = path) (live c) of
       None \<Rightarrow> Inr (False, c)
     | Some k \<Rightarrow> Inr (True, c\<lparr>slots := slots c ! k # take k (slots c) @ drop (Suc k) (slots c)\<rparr>))"
  using find_in_cache_from_eq [OF assms, of 0 "cache_count c" path]
  by (simp add: find_in_cache_def cong: option.case_cong)

lemma remove_from_cache_from_eq:
  assumes "cache_wf c" and "i + n = cache_count c"
  shows "remove_from_cache_from path i n c =
    (case find_index (\<lambda>e. fst e = path) (drop i (live c)) of
       None \<Rightarrow> Inr c
     | Some k \<Rightarrow> Inr \<lparr>slots = shift_left (i + k) (cache_count c - 1 - (i + k)) (slots c),
                     cache_count = cache_count c - 1\<rparr>)"
  using assms
proof (induction n arbitrary: i)
  case 0
  then show ?case by (simp add: length_live)
next
  case (Suc n)
  then have i: "i < cache_count c" by simp
  have drop: "drop i (live c) = entry_pair (slots c ! i) # drop (Suc i) (live c)"
    using Suc.prems i length_live [of c] live_nth [of c i]
    by (metis Cons_nth_drop_Suc)
  show ?case
    using Suc.IH [of "Suc i"] Suc.prems live_path_bound [OF Suc.prems(1) i]
    by (auto simp: drop entry_pair_def split: option.splits)
qed

section \<open>Refinement\<close>

lemma rotate_front_mset:
  "i < length l \<Longrightarrow> mset (l ! i # take i l @ drop (Suc i) l) = mset l"
  by (subst (4) id_take_nth_drop [of i l]) auto

lemma take_rotate_front:
  assumes "k < n" and "n \<le> length xs"
  shows "take n (xs ! k # take k xs @ drop (Suc k) xs) =
         take n xs ! k # take k (take n xs) @ drop (Suc k) (take n xs)"
proof -
  from assms obtain m where "n = Suc m" and "k \<le> m" by (cases n) auto
  with assms show ?thesis by (simp add: drop_take min.absorb1 del: take_Suc_Cons)
      (simp add: min.absorb1)
qed

lemma distinct_remove_nth: "distinct xs \<Longrightarrow> distinct (take k xs @ drop (Suc k) xs)"
  by (simp add: set_take_disj_set_drop_if_distinct)

lemma lru_touch_mset: "lru_touch p l = Some l' \<Longrightarrow> mset l' = mset l"
  by (auto simp: lru_touch_def rotate_front_mset dest: find_index_less simp del: mset.simps mset_append)

lemma lru_touch_None: "lru_touch p l = None \<longleftrightarrow> p \<notin> fst ` set l"
  by (auto simp: lru_touch_def find_index_None)

lemma lru_touch_hd: "lru_touch p l = Some l' \<Longrightarrow> \<exists>v. hd l' = (p, v) \<and> (p, v) \<in> set l"
  by (auto simp: lru_touch_def find_index_Some) (metis nth_mem prod.collapse)

text \<open>What every lookup guarantees, hit or miss.\<close>

lemma find_in_cache_wp [wp_intros]:
  assumes wf: "cache_wf c"
  shows "wp (\<lambda>(hit, c'). cache_wf c' \<and> cache_count c' = cache_count c \<and>
            (case lru_touch p (live c) of
               None \<Rightarrow> \<not> hit \<and> c' = c
             | Some l \<Rightarrow> hit \<and> live c' = l)) (find_in_cache p c)"
proof (cases "find_index (\<lambda>e. fst e = p) (live c)")
  case None
  then show ?thesis using wf by (simp add: find_in_cache_eq lru_touch_def)
next
  case (Some k)
  let ?xs = "slots c" and ?n = "cache_count c"
  define c' where "c' = c\<lparr>slots := ?xs ! k # take k ?xs @ drop (Suc k) ?xs\<rparr>"
  have k: "k < ?n" using Some wf by (simp add: find_index_Some length_live)
  have n: "?n \<le> length ?xs" "length ?xs = 8" using wf by (simp_all add: cache_wf_def)
  have live': "live c' = live c ! k # take k (live c) @ drop (Suc k) (live c)"
    using k n by (simp add: c'_def live_def take_rotate_front take_map drop_map del: take_Suc_Cons)
  then have "mset (live c') = mset (live c)"
    using k wf by (simp add: length_live rotate_front_mset del: mset.simps mset_append)
  then have "set (live c') = set (live c)" and "mset (map fst (live c')) = mset (map fst (live c))"
    by (metis set_mset_mset) (simp add: \<open>mset (live c') = mset (live c)\<close>)
  then have "cache_wf c'"
    using wf k n mset_eq_imp_distinct_iff by (fastforce simp: cache_wf_def list_all_iff c'_def)
  then show ?thesis
    using Some wf live' by (simp add: find_in_cache_eq lru_touch_def c'_def)
qed

lemma add_to_cache_eq:
  assumes "cache_wf c" and "length p < MAX_FILE_PATH_SIZE"
  defines "n \<equiv> min 7 (cache_count c)"
  shows "add_to_cache p v c =
    \<lparr>slots = \<lparr>ce_path = p, ce_info = v\<rparr> # take n (slots c) @ drop (Suc n) (slots c),
     cache_count = Suc n\<rparr>"
proof -
  have "(if cache_count c = 8 then cache_count c - 1 else cache_count c) = n" and "n < length (slots c)"
    using assms(1) by (auto simp: cache_wf_def n_def)
  then show ?thesis
    using assms(2) by (simp only: add_to_cache_def Let_def shift_right_front) simp
qed

lemma add_to_cache_live:
  assumes "cache_wf c" and "length p < MAX_FILE_PATH_SIZE"
  shows "live (add_to_cache p v c) = lru_add p v (live c)"
  using assms
  by (simp add: live_def add_to_cache_eq lru_add_def entry_pair_def cache_wf_def take_map min.commute)

lemma add_to_cache_wf:
  assumes "cache_wf c" and "length p < MAX_FILE_PATH_SIZE" and "p \<notin> fst ` set (live c)"
  shows "cache_wf (add_to_cache p v c)"
proof -
  have "p \<notin> fst ` set (take 7 (live c))"
    using assms(3) by (auto dest: in_set_takeD)
  moreover have "length (slots (add_to_cache p v c)) = 8" and "cache_count (add_to_cache p v c) \<le> 8"
    using assms by (auto simp: cache_wf_def add_to_cache_eq)
  ultimately show ?thesis
    using assms
    by (auto simp: cache_wf_def add_to_cache_live lru_add_def list_all_iff take_map [symmetric]
        dest: in_set_takeD)
qed

lemma take_shift_left:
  assumes "k < n" and "n \<le> length xs"
  shows "take (n - 1) (shift_left k (n - 1 - k) xs) = take k (take n xs) @ drop (Suc k) (take n xs)"
proof -
  from assms obtain m where m: "n = Suc m" and "k \<le> m" by (cases n) auto
  then have "k + (m - k) < length xs" using assms by linarith
  with m \<open>k \<le> m\<close> assms show ?thesis
    by (simp add: shift_left_eq drop_take min.absorb1 min.absorb2)
qed

lemma remove_from_cache_eq:
  assumes wf: "cache_wf c"
  shows "remove_from_cache p c =
    (case find_index (\<lambda>e. fst e = p) (live c) of
       None \<Rightarrow> Inr c
     | Some k \<Rightarrow> Inr \<lparr>slots = shift_left k (cache_count c - 1 - k) (slots c),
                     cache_count = cache_count c - 1\<rparr>)"
  using remove_from_cache_from_eq [OF wf, of 0 "cache_count c" p]
  by (simp add: remove_from_cache_def cong: option.case_cong)

lemma remove_from_cache_wp [wp_intros]:
  assumes wf: "cache_wf c"
  shows "wp (\<lambda>c'. cache_wf c' \<and> live c' = lru_remove p (live c)) (remove_from_cache p c)"
proof -
  note eq = remove_from_cache_eq [OF wf, of p]
  show ?thesis
  proof (cases "find_index (\<lambda>e. fst e = p) (live c)")
    case None
    then show ?thesis using wf by (simp add: eq lru_remove_def)
  next
    case (Some k)
    let ?n = "cache_count c" and ?xs = "slots c"
    define c' where "c' = \<lparr>slots = shift_left k (?n - 1 - k) ?xs, cache_count = ?n - 1\<rparr>"
    have k: "k < ?n" using Some wf by (simp add: find_index_Some length_live)
    have n: "?n \<le> length ?xs" "length ?xs = 8" using wf by (simp_all add: cache_wf_def)
    have live': "live c' = take k (live c) @ drop (Suc k) (live c)"
      using take_shift_left [OF k n(1)] by (simp add: c'_def live_def take_map drop_map)
    have "k + (?n - 1 - k) < length ?xs" using k n by linarith
    then have "length (slots c') = 8" using n by (simp add: c'_def shift_left_eq)
    moreover have "distinct (map fst (live c'))"
      using wf distinct_remove_nth [of "map fst (live c)" k]
      by (simp add: live' cache_wf_def take_map drop_map)
    moreover have "set (live c') \<subseteq> set (live c)"
      by (auto simp: live' dest: in_set_takeD in_set_dropD)
    ultimately have "cache_wf c'"
      using wf k by (auto simp: cache_wf_def list_all_iff c'_def)
    then show ?thesis using Some live' by (simp add: eq lru_remove_def c'_def)
  qed
qed

section \<open>The contract of the cache\<close>

text \<open>
  What a client of the cache relies on: keys and values through a partial map \<open>view\<close>,
  a lookup that leaves the map alone and moves the hit to the place \<open>top\<close> reads, an
  insertion that may forget other keys but never changes them, and a removal.
\<close>

locale recency_cache =
  fixes find :: "string \<Rightarrow> 'c \<Rightarrow> (bool \<times> 'c) result"
    and add :: "string \<Rightarrow> 'v \<Rightarrow> 'c \<Rightarrow> 'c"
    and remove :: "string \<Rightarrow> 'c \<Rightarrow> 'c result"
    and top :: "'c \<Rightarrow> 'v"
    and view :: "'c \<Rightarrow> string \<Rightarrow> 'v option"
    and inv :: "'c \<Rightarrow> bool"
    and key_ok :: "string \<Rightarrow> bool"
  assumes find_law: "inv c \<Longrightarrow>
      wp (\<lambda>(hit, c'). inv c' \<and> view c' = view c \<and>
            view c p = (if hit then Some (top c') else None)) (find p c)"
    and add_inv: "inv c \<Longrightarrow> key_ok p \<Longrightarrow> view c p = None \<Longrightarrow> inv (add p v c)"
    and add_view: "inv c \<Longrightarrow> key_ok p \<Longrightarrow> view c p = None \<Longrightarrow>
      view (add p v c) p = Some v \<and> view (add p v c) \<subseteq>\<^sub>m (view c)(p \<mapsto> v)"
    and remove_law: "inv c \<Longrightarrow>
      wp (\<lambda>c'. inv c' \<and> view c' = (view c)(p := None)) (remove p c)"

definition cache_top :: "lru_cache \<Rightarrow> FILEINFO" where
  "cache_top c = ce_info (slots c ! 0)"

definition cache_view :: "lru_cache \<Rightarrow> string \<Rightarrow> FILEINFO option" where
  "cache_view c = map_of (live c)"

definition path_ok :: "string \<Rightarrow> bool" where
  "path_ok p \<longleftrightarrow> length p < MAX_FILE_PATH_SIZE"

lemma cache_top_live: "cache_wf c \<Longrightarrow> live c \<noteq> [] \<Longrightarrow> snd (hd (live c)) = cache_top c"
  using length_live [of c] live_nth [of c 0]
  by (cases "cache_count c") (auto simp: hd_conv_nth cache_top_def entry_pair_def)

lemma map_of_mset_eq:
  "distinct (map fst xs) \<Longrightarrow> mset ys = mset xs \<Longrightarrow> map_of ys = map_of xs"
proof -
  assume d: "distinct (map fst xs)" and m: "mset ys = mset xs"
  then have "mset (map fst ys) = mset (map fst xs)" by simp
  with d have "distinct (map fst ys)" using mset_eq_imp_distinct_iff by blast
  moreover have "set ys = set xs" using m by (rule mset_eq_setD)
  ultimately show ?thesis using d by (metis map_of_inject_set)
qed

lemma find_in_cache_view:
  assumes wf: "cache_wf c"
  shows "wp (\<lambda>(hit, c'). cache_wf c' \<and> cache_view c' = cache_view c \<and>
           cache_view c p = (if hit then Some (cache_top c') else None)) (find_in_cache p c)"
proof -
  obtain hit c' where eq: "find_in_cache p c = Inr (hit, c')" and wf': "cache_wf c'"
    and r: "case lru_touch p (live c) of None \<Rightarrow> \<not> hit \<and> c' = c | Some l \<Rightarrow> hit \<and> live c' = l"
    using find_in_cache_wp [OF wf, of p] by (auto simp: wp_iff)
  have "cache_view c' = cache_view c \<and> cache_view c p = (if hit then Some (cache_top c') else None)"
  proof (cases "lru_touch p (live c)")
    case None
    with r show ?thesis
      by (auto simp: cache_view_def lru_touch_None map_of_eq_None_iff)
  next
    case (Some l)
    with r have hit: "hit" and l: "live c' = l" by auto
    have d: "distinct (map fst (live c))" using wf by (simp add: cache_wf_def)
    obtain v where v: "hd l = (p, v)" "(p, v) \<in> set (live c)" using lru_touch_hd [OF Some] by blast
    have "l \<noteq> []" using lru_touch_mset [OF Some] v(2) by auto
    with wf' l v have "cache_top c' = v" using cache_top_live [of c'] by simp
    moreover have "map_of (live c') = map_of (live c)"
      using map_of_mset_eq [OF d lru_touch_mset [OF Some]] by (simp only: l)
    moreover have "map_of (live c) p = Some v" using d v(2) by (rule map_of_is_SomeI)
    ultimately show ?thesis using hit by (simp only: cache_view_def if_True simp_thms)
  qed
  with eq wf' show ?thesis by simp
qed

lemma map_of_take: "map_of (take n l) \<subseteq>\<^sub>m map_of l"
  by (induction l arbitrary: n) (auto simp: take_Cons' map_le_def)

lemma map_of_remove_nth:
  assumes "distinct (map fst l)" and "k < length l" and "fst (l ! k) = p"
  shows "map_of (take k l @ drop (Suc k) l) = (map_of l)(p := None)"
proof -
  let ?a = "take k l" and ?b = "drop (Suc k) l"
  have l: "l = ?a @ l ! k # ?b" using assms(2) by (rule id_take_nth_drop)
  have "distinct (map fst (?a @ l ! k # ?b))" using assms(1) l by simp
  then have "p \<notin> fst ` set ?a" and "p \<notin> fst ` set ?b"
    using assms(3) by (auto simp del: append_take_drop_id)
  then have "map_of ?a p = None" and "map_of ?b p = None"
    by (simp_all add: map_of_eq_None_iff)
  moreover have "map_of (?a @ l ! k # ?b) = map_of l" using l by simp
  ultimately show ?thesis
    using assms(3)
    by (cases "l ! k") (auto simp: fun_eq_iff map_add_def simp flip: \<open>map_of (?a @ l ! k # ?b) = map_of l\<close> split: option.splits)
qed

interpretation lru: recency_cache find_in_cache add_to_cache remove_from_cache
  cache_top cache_view cache_wf path_ok
proof
  show "cache_wf c \<Longrightarrow> wp (\<lambda>(hit, c'). cache_wf c' \<and> cache_view c' = cache_view c \<and>
          cache_view c p = (if hit then Some (cache_top c') else None)) (find_in_cache p c)" for c p
    by (rule find_in_cache_view)
  show "cache_wf c \<Longrightarrow> path_ok p \<Longrightarrow> cache_view c p = None \<Longrightarrow> cache_wf (add_to_cache p v c)" for c p v
    by (simp add: add_to_cache_wf path_ok_def cache_view_def map_of_eq_None_iff)
  show "cache_wf c \<Longrightarrow> path_ok p \<Longrightarrow> cache_view c p = None \<Longrightarrow>
      cache_view (add_to_cache p v c) p = Some v \<and>
      cache_view (add_to_cache p v c) \<subseteq>\<^sub>m (cache_view c)(p \<mapsto> v)" for c p v
    using map_of_take [of 7 "live c"]
    by (auto simp: path_ok_def cache_view_def add_to_cache_live lru_add_def map_le_def)
  show "cache_wf c \<Longrightarrow> wp (\<lambda>c'. cache_wf c' \<and> cache_view c' = (cache_view c)(p := None))
          (remove_from_cache p c)" for c p
  proof (rule wp_mono [OF remove_from_cache_wp], simp, clarsimp)
    fix c' assume wf: "cache_wf c" and l: "live c' = lru_remove p (live c)"
    have d: "distinct (map fst (live c))" using wf by (simp add: cache_wf_def)
    show "cache_view c' = (cache_view c)(p := None)"
    proof (cases "find_index (\<lambda>e. fst e = p) (live c)")
      case None
      have "live c' = live c" using l None by (simp add: lru_remove_def)
      moreover have "map_of (live c) p = None"
        using None by (force simp: find_index_None map_of_eq_None_iff)
      ultimately show ?thesis by (auto simp: cache_view_def fun_eq_iff)
    next
      case (Some k)
      then have "live c' = take k (live c) @ drop (Suc k) (live c)"
        using l by (simp add: lru_remove_def)
      moreover have "k < length (live c)" and "fst (live c ! k) = p"
        using Some by (simp_all add: find_index_Some)
      ultimately show ?thesis
        using d by (simp add: cache_view_def map_of_remove_nth del: map_of_append)
    qed
  qed
qed

end
