(* ===== verification/Path_Trie.thy ===== *)
theory Path_Trie
  imports Utils "HOL-Library.Char_ord" "HOL-Library.List_Lexorder"
begin

text \<open>
  The path trie of the naming server (\<open>naming_utils.c\<close>, lines 14 to 21, 86 to 143,
  173 to 189 and 222 to 350). A node is an array of 256 child pointers indexed by a byte,
  here a function of the byte, and an optional file record. Every path of the trie is a
  string of bytes; the trie knows nothing of path components.

  \<open>malloc\<close> is taken to succeed.
\<close>

section \<open>Nodes and operations\<close>

datatype TrieNode = TrieNode (children: "char \<Rightarrow> TrieNode option") (file_info: "FILEINFO option")

lemma TrieNode_children_induct [case_names TrieNode]:
  assumes "\<And>ch fi. (\<And>c u. ch c = Some u \<Longrightarrow> P u) \<Longrightarrow> P (TrieNode ch fi)"
  shows "P t"
proof (induction t)
  case (TrieNode ch fi)
  show ?case
  proof (rule assms)
    show "P u" if "ch c = Some u" for c u
      using TrieNode.IH [of "ch c" u] that by (metis option.set_intros rangeI)
  qed
qed

definition create_trie_node :: TrieNode where
  "create_trie_node = TrieNode (\<lambda>_. None) None"

definition create_trie :: TrieNode where
  "create_trie = create_trie_node"

text \<open>The descent loop all readers share: NULL as soon as a child is missing.\<close>

fun find_trie_node :: "TrieNode \<Rightarrow> string \<Rightarrow> TrieNode option" where
  "find_trie_node t [] = Some t"
| "find_trie_node (TrieNode ch fi) (c # cs) =
     (case ch c of None \<Rightarrow> None | Some t \<Rightarrow> find_trie_node t cs)"

text \<open>The descent loop all writers share: missing children are created on the way.\<close>

fun at_trie_node :: "string \<Rightarrow> (TrieNode \<Rightarrow> TrieNode) \<Rightarrow> TrieNode \<Rightarrow> TrieNode" where
  "at_trie_node [] f t = f t"
| "at_trie_node (c # cs) f (TrieNode ch fi) =
     TrieNode (ch(c \<mapsto> at_trie_node cs f
       (case ch c of None \<Rightarrow> create_trie_node | Some t \<Rightarrow> t))) fi"

definition set_info :: "FILEINFO option \<Rightarrow> TrieNode \<Rightarrow> TrieNode" where
  "set_info v t = TrieNode (children t) v"

definition update_file_info :: "TrieNode \<Rightarrow> StorageServerInfo \<Rightarrow> string \<Rightarrow> TrieNode" where
  "update_file_info trie info token =
     at_trie_node token
       (set_info (Some \<lparr>fi_ip = strncpy INET_ADDRSTRLEN (ss_ip info),
                        fi_port_client = ss_port_client info,
                        fi_file_path = strncpy MAX_FILE_PATH_SIZE token\<rparr>)) trie"

definition update_file_info_fromdir :: "TrieNode \<Rightarrow> FILEINFO \<Rightarrow> string \<Rightarrow> TrieNode" where
  "update_file_info_fromdir trie info token =
     at_trie_node token
       (set_info (Some \<lparr>fi_ip = strncpy INET_ADDRSTRLEN (fi_ip info),
                        fi_port_client = fi_port_client info,
                        fi_file_path = strncpy MAX_FILE_PATH_SIZE token\<rparr>)) trie"

text \<open>\<open>delete_file_info\<close> clears the record and keeps the nodes.\<close>

definition delete_file_info :: "TrieNode \<Rightarrow> string \<Rightarrow> TrieNode" where
  "delete_file_info trie file_path =
     (case find_trie_node trie file_path of
        None \<Rightarrow> trie
      | Some _ \<Rightarrow> at_trie_node file_path (set_info None) trie)"

section \<open>Listing\<close>

fun concat_results :: "'a list result list \<Rightarrow> 'a list result" where
  "concat_results [] = Inr []"
| "concat_results (m # ms) = andthen m (\<lambda>xs. andthen (concat_results ms) (\<lambda>ys. Inr (xs @ ys)))"

text \<open>
  The messages \<open>traverse_trie\<close> sends, in order. \<open>path\<close> is the content of the path buffer
  up to \<open>depth\<close>. Sending needs room for the newline and the NUL after \<open>depth\<close> characters
  in \<open>full_path[256]\<close>; descending writes \<open>path[depth]\<close>.
\<close>

primrec traverse_trie :: "TrieNode \<Rightarrow> string \<Rightarrow> string list result" where
  "traverse_trie (TrieNode ch fi) =
     (\<lambda>path. andthen
       (case fi of
          None \<Rightarrow> Inr []
        | Some _ \<Rightarrow> if MAX_FILE_PATH_SIZE \<le> length path + 1 then Inl Overflow
                    else Inr [path @ [CHR 0x0A]])
       (\<lambda>own. andthen
         (concat_results (map (\<lambda>i.
            case map_option traverse_trie (ch (char_of i)) of
              None \<Rightarrow> Inr []
            | Some go \<Rightarrow>
                if MAX_FILE_PATH_SIZE \<le> length path then Inl Overflow
                else go (path @ [char_of i])) [0..<(256::nat)]))
         (\<lambda>below. Inr (own @ below))))"

definition list_files :: "TrieNode \<Rightarrow> string \<Rightarrow> string list result" where
  "list_files trie dir_path =
     (case find_trie_node trie dir_path of
        None \<Rightarrow> Inr []
      | Some node \<Rightarrow> traverse_trie node dir_path)"

section \<open>Copying a directory\<close>

primrec copy_trie_node :: "TrieNode \<Rightarrow> TrieNode" where
  "copy_trie_node (TrieNode ch fi) = TrieNode (\<lambda>c. map_option copy_trie_node (ch c)) fi"

definition insert_trie_node :: "TrieNode \<Rightarrow> string \<Rightarrow> TrieNode \<Rightarrow> TrieNode" where
  "insert_trie_node trie path new_node = at_trie_node path (\<lambda>_. new_node) trie"

definition copy_directory_trie :: "TrieNode \<Rightarrow> string \<Rightarrow> string \<Rightarrow> TrieNode" where
  "copy_directory_trie trie arg1 arg2 =
     (case find_trie_node trie arg1 of
        None \<Rightarrow> trie
      | Some source_node \<Rightarrow> insert_trie_node trie arg2 (copy_trie_node source_node))"

section \<open>The trie as a map\<close>

definition info_at :: "TrieNode \<Rightarrow> string \<Rightarrow> FILEINFO option" where
  "info_at t p = Option.bind (find_trie_node t p) file_info"

lemma find_trie_node_Cons:
  "find_trie_node t (c # cs) = Option.bind (children t c) (\<lambda>u. find_trie_node u cs)"
  by (cases t) (auto split: option.splits)

lemma find_trie_node_append:
  "find_trie_node t (p @ q) = Option.bind (find_trie_node t p) (\<lambda>u. find_trie_node u q)"
  by (induction p arbitrary: t) (auto simp: find_trie_node_Cons simp del: find_trie_node.simps(2))

lemma info_at_Nil [simp]: "info_at t [] = file_info t"
  by (simp add: info_at_def)

lemma info_at_Cons:
  "info_at t (c # cs) = Option.bind (children t c) (\<lambda>u. info_at u cs)"
  by (simp add: info_at_def find_trie_node_Cons del: find_trie_node.simps(2))

lemma info_at_append:
  "info_at t (p @ q) = Option.bind (find_trie_node t p) (\<lambda>u. info_at u q)"
  by (simp add: info_at_def find_trie_node_append)

lemma info_at_create [simp]: "info_at create_trie_node p = None"
  by (cases p) (simp_all add: create_trie_node_def info_at_Cons)

lemma children_set_info [simp]: "children (set_info v t) = children t"
  by (simp add: set_info_def)

lemma file_info_set_info [simp]: "file_info (set_info v t) = v"
  by (simp add: set_info_def)

lemma info_at_set_info: "info_at (set_info v t) q = (if q = [] then v else info_at t q)"
  by (cases q) (simp_all add: info_at_Cons)

lemma children_at [simp]:
  "children (at_trie_node (c # cs) f t) =
     (children t)(c \<mapsto> at_trie_node cs f (case children t c of None \<Rightarrow> create_trie_node | Some u \<Rightarrow> u))"
  by (cases t) simp

lemma file_info_at [simp]: "file_info (at_trie_node (c # cs) f t) = file_info t"
  by (cases t) simp

text \<open>
  A change at a node touches exactly the paths through it: below \<open>p\<close> it is the change of
  the subtree, elsewhere nothing.
\<close>

definition node_or_new :: "TrieNode \<Rightarrow> string \<Rightarrow> TrieNode" where
  "node_or_new t p = (case find_trie_node t p of None \<Rightarrow> create_trie_node | Some u \<Rightarrow> u)"

lemma node_or_new_new: "node_or_new create_trie_node p = create_trie_node"
  by (cases p) (simp_all add: node_or_new_def create_trie_node_def)

lemma node_or_new_Cons:
  "node_or_new t (c # cs) =
     node_or_new (case children t c of None \<Rightarrow> create_trie_node | Some u \<Rightarrow> u) cs"
  by (cases "children t c")
    (simp_all add: node_or_new_new, simp_all add: node_or_new_def find_trie_node_Cons del: find_trie_node.simps(2))

lemma info_at_below: "info_at (at_trie_node p f t) (p @ q) = info_at (f (node_or_new t p)) q"
proof (induction p arbitrary: t)
  case Nil
  show ?case by (simp add: node_or_new_def)
next
  case (Cons c p)
  show ?case by (simp add: info_at_Cons node_or_new_Cons Cons.IH)
qed

lemma info_at_elsewhere:
  "\<not> prefix p q \<Longrightarrow> info_at (at_trie_node p f t) q = info_at t q"
proof (induction p arbitrary: t q)
  case Nil
  then show ?case by simp
next
  case (Cons c p)
  show ?case
  proof (cases q)
    case Nil
    then show ?thesis by simp
  next
    case (Cons d q')
    show ?thesis
    proof (cases "d = c")
      case True
      with Cons.prems Cons have "\<not> prefix p q'" by simp
      then show ?thesis
        using Cons True Cons.IH by (cases "children t c") (simp_all add: info_at_Cons)
    next
      case False
      then show ?thesis by (simp add: Cons info_at_Cons)
    qed
  qed
qed

lemma info_at_node_or_new: "info_at (node_or_new t p) q = info_at t (p @ q)"
  by (simp add: node_or_new_def info_at_append split: option.splits)

lemma info_at_update:
  "info_at (at_trie_node p (set_info v) t) = (info_at t)(p := v)"
proof
  fix q
  show "info_at (at_trie_node p (set_info v) t) q = ((info_at t)(p := v)) q"
  proof (cases "prefix p q")
    case True
    then obtain s where "q = p @ s" by (auto simp: prefix_def)
    then show ?thesis by (simp add: info_at_below info_at_set_info info_at_node_or_new)
  next
    case False
    then show ?thesis by (auto simp: info_at_elsewhere)
  qed
qed

lemma info_at_delete: "info_at (delete_file_info t p) = (info_at t)(p := None)"
proof (cases "find_trie_node t p")
  case None
  then have "info_at t p = None" by (simp add: info_at_def)
  with None show ?thesis by (auto simp: delete_file_info_def fun_eq_iff)
next
  case (Some u)
  then show ?thesis by (simp add: delete_file_info_def info_at_update)
qed

text \<open>The contract of an index of paths, and the trie as one.\<close>

locale path_index =
  fixes lookup :: "'t \<Rightarrow> string \<Rightarrow> 'v option"
    and update :: "string \<Rightarrow> 'v \<Rightarrow> 't \<Rightarrow> 't"
    and delete :: "'t \<Rightarrow> string \<Rightarrow> 't"
  assumes lookup_update: "lookup (update p v t) = (lookup t)(p \<mapsto> v)"
    and lookup_delete: "lookup (delete t p) = (lookup t)(p := None)"
begin

lemma delete_update: "lookup (delete (update p v t) p) = (lookup t)(p := None)"
  by (simp add: lookup_delete lookup_update)

lemma update_delete: "lookup (update p v (delete t p)) = (lookup t)(p \<mapsto> v)"
  by (simp add: lookup_delete lookup_update)

end

definition trie_put :: "string \<Rightarrow> FILEINFO \<Rightarrow> TrieNode \<Rightarrow> TrieNode" where
  "trie_put p v t = at_trie_node p (set_info (Some v)) t"

lemma update_file_info_put:
  "update_file_info t info p =
     trie_put p \<lparr>fi_ip = strncpy INET_ADDRSTRLEN (ss_ip info), fi_port_client = ss_port_client info,
                fi_file_path = strncpy MAX_FILE_PATH_SIZE p\<rparr> t"
  by (simp add: update_file_info_def trie_put_def)

lemma update_file_info_fromdir_put:
  "update_file_info_fromdir t info p =
     trie_put p \<lparr>fi_ip = strncpy INET_ADDRSTRLEN (fi_ip info), fi_port_client = fi_port_client info,
                fi_file_path = strncpy MAX_FILE_PATH_SIZE p\<rparr> t"
  by (simp add: update_file_info_fromdir_def trie_put_def)

lemma find_trie_node_put:
  "find_trie_node (trie_put q v t) p \<noteq> None \<Longrightarrow> find_trie_node t p \<noteq> None \<or> prefix p q"
  unfolding trie_put_def
proof (induction q arbitrary: t p)
  case Nil
  then show ?case by (cases p) (simp_all add: find_trie_node_Cons del: find_trie_node.simps(2))
next
  case (Cons c q)
  show ?case
  proof (cases p)
    case (Cons d p')
    show ?thesis
    proof (cases "d = c")
      case True
      with Cons.prems Cons Cons.IH [of "case children t c of None \<Rightarrow> create_trie_node | Some u \<Rightarrow> u" p']
      have "find_trie_node (case children t c of None \<Rightarrow> create_trie_node | Some u \<Rightarrow> u) p' \<noteq> None \<or> prefix p' q"
        by (simp add: find_trie_node_Cons del: find_trie_node.simps(2))
      then show ?thesis
        using Cons True
        by (cases "children t c"; cases p')
          (auto simp: find_trie_node_Cons create_trie_node_def simp del: find_trie_node.simps(2))
    qed (use Cons.prems Cons in \<open>simp add: find_trie_node_Cons del: find_trie_node.simps(2)\<close>)
  qed simp
qed

interpretation trie: path_index info_at trie_put delete_file_info
  by unfold_locales (simp_all add: trie_put_def info_at_update info_at_delete)

section \<open>Directory copies\<close>

lemma copy_trie_node_id: "copy_trie_node t = t"
proof (induction t rule: TrieNode_children_induct)
  case (TrieNode ch fi)
  then have "map_option copy_trie_node (ch c) = ch c" for c
    by (cases "ch c") auto
  then show ?case by simp
qed

lemma info_at_copy_directory:
  assumes "find_trie_node t a = Some n"
  shows "info_at (copy_directory_trie t a b) q =
    (if prefix b q then info_at t (a @ drop (length b) q) else info_at t q)"
proof (cases "prefix b q")
  case True
  then obtain s where q: "q = b @ s" by (auto simp: prefix_def)
  have "info_at t (a @ s) = info_at n s" by (simp add: assms info_at_append)
  with assms show ?thesis
    by (simp add: q copy_directory_trie_def insert_trie_node_def copy_trie_node_id info_at_below)
next
  case False
  with assms show ?thesis
    by (simp add: copy_directory_trie_def insert_trie_node_def info_at_elsewhere)
qed

section \<open>Listings\<close>

lemma concat_results_Inr:
  "concat_results ms = Inr xs \<longleftrightarrow> (\<exists>xss. ms = map Inr xss \<and> xs = concat xss)"
proof (induction ms arbitrary: xs)
  case Nil
  then show ?case by auto
next
  case (Cons m ms)
  show ?case
    by (auto simp: andthen_eq_Inr Cons.IH Cons_eq_map_conv)
qed

lemma sorted_wrt_concat_upt:
  assumes "\<And>i. i < n \<Longrightarrow> sorted_wrt R (f i)"
    and "\<And>i j x y. i < j \<Longrightarrow> j < n \<Longrightarrow> x \<in> set (f i) \<Longrightarrow> y \<in> set (f j) \<Longrightarrow> R x y"
  shows "sorted_wrt R (concat (map f [0..<n]))"
  using assms
proof (induction n)
  case 0
  then show ?case by simp
next
  case (Suc n)
  then have "sorted_wrt R (concat (map f [0..<n]))" by simp
  moreover have "sorted_wrt R (f n)" using Suc.prems(1) by simp
  moreover have "\<forall>x \<in> set (concat (map f [0..<n])). \<forall>y \<in> set (f n). R x y"
    using Suc.prems(2) by auto
  ultimately show ?case by (simp add: sorted_wrt_append)
qed

lemma char_of_less_iff: "i < 256 \<Longrightarrow> j < 256 \<Longrightarrow> char_of i < (char_of j :: char) \<longleftrightarrow> i < (j :: nat)"
  by (simp add: less_char_def)

text \<open>
  A listing that does not overflow reports exactly the paths of the subtree that carry a
  record, each once, in lexicographic order of bytes.
\<close>

definition lists_paths :: "TrieNode \<Rightarrow> string \<Rightarrow> string list \<Rightarrow> string list \<Rightarrow> bool" where
  "lists_paths t path msgs ps \<longleftrightarrow>
     msgs = map (\<lambda>p. path @ p @ [CHR 0x0A]) ps \<and> sorted_wrt (<) ps \<and>
     set ps = {p. info_at t p \<noteq> None}"

lemma lists_paths_child:
  assumes "lists_paths u (path @ [c]) msgs ps" and "ch c = Some u"
  shows "msgs = map (\<lambda>p. path @ p @ [CHR 0x0A]) (map ((#) c) ps) \<and>
     sorted_wrt (<) (map ((#) c) ps) \<and>
     set (map ((#) c) ps) = {p. \<exists>s. p = c # s \<and> info_at (TrieNode ch fi) p \<noteq> None}"
  using assms by (auto simp: lists_paths_def sorted_wrt_map info_at_Cons comp_def)

lemma traverse_trie_lists:
  "traverse_trie t path = Inr msgs \<Longrightarrow> \<exists>ps. lists_paths t path msgs ps"
proof (induction t arbitrary: path msgs rule: TrieNode_children_induct)
  case (TrieNode ch fi)
  let ?t = "TrieNode ch fi" and ?g = "\<lambda>p. path @ p @ [CHR 0x0A]"
  define go where "go = (\<lambda>i::nat. case map_option traverse_trie (ch (char_of i)) of
      None \<Rightarrow> Inr []
    | Some go \<Rightarrow> if 256 \<le> length path then Inl Overflow else go (path @ [char_of i]))"
  from TrieNode.prems obtain own xss where
    own: "own = (case fi of None \<Rightarrow> [] | Some _ \<Rightarrow> [path @ [CHR 0x0A]])"
    and xss: "map go [0..<256] = map Inr xss" and msgs: "msgs = own @ concat xss"
    by (auto simp: andthen_eq_Inr concat_results_Inr go_def split: option.splits if_splits)
  have len: "length xss = 256" using arg_cong [OF xss, of length] by simp
  have go: "go i = Inr (xss ! i)" if "i < 256" for i
    using that len arg_cong [OF xss, of "\<lambda>l. l ! i"] by simp
  define lists where "lists = (\<lambda>(i::nat) ps. xss ! i = map ?g ps \<and> sorted_wrt (<) ps \<and>
      set ps = {p. \<exists>s. p = char_of i # s \<and> info_at ?t p \<noteq> None})"
  have ex: "\<exists>ps. lists i ps" if "i < 256" for i
  proof (cases "ch (char_of i)")
    case None
    with go [OF that] show ?thesis
      by (intro exI [of _ "[]"]) (auto simp: info_at_Cons go_def lists_def)
  next
    case (Some u)
    with go [OF that] have "traverse_trie u (path @ [char_of i]) = Inr (xss ! i)"
      by (simp add: go_def split: if_splits)
    then obtain ps where "lists_paths u (path @ [char_of i]) (xss ! i) ps"
      using TrieNode.IH [OF Some] by blast
    from lists_paths_child [of u path "char_of i" "xss ! i" ps ch fi, OF this Some]
    show ?thesis unfolding lists_def by blast
  qed
  then have "\<forall>i. \<exists>ps. i < 256 \<longrightarrow> lists i ps" by blast
  from choice [OF this] obtain f where f: "\<And>i. i < 256 \<Longrightarrow> xss ! i = map ?g (f i) \<and>
      sorted_wrt (<) (f i) \<and> set (f i) = {p. \<exists>s. p = char_of i # s \<and> info_at ?t p \<noteq> None}"
    unfolding lists_def by blast
  let ?below = "concat (map f [0..<256])"
  have "xss = map (\<lambda>i. map ?g (f i)) [0..<256]"
    using len f by (intro nth_equalityI) auto
  then have conc: "concat xss = map ?g ?below" by (simp add: map_concat comp_def)
  have srt: "sorted_wrt (<) ?below"
    using f by (intro sorted_wrt_concat_upt) (auto simp: char_of_less_iff)
  have below: "set ?below = {p. p \<noteq> [] \<and> info_at ?t p \<noteq> None}"
  proof -
    have "\<exists>i<256. p \<in> set (f i)" if "p \<noteq> []" "info_at ?t p \<noteq> None" for p
    proof -
      obtain c s where "p = c # s" using \<open>p \<noteq> []\<close> by (cases p) auto
      moreover have "of_char c < (256::nat)" by simp
      ultimately show ?thesis using f [of "of_char c"] that
        by (intro exI [of _ "of_char c"]) auto
    qed
    then show ?thesis using f by fastforce
  qed
  have all: "{p. info_at ?t p \<noteq> None} =
      (if fi = None then {} else {[]}) \<union> {p. p \<noteq> [] \<and> info_at ?t p \<noteq> None}"
  proof (rule set_eqI)
    show "p \<in> {p. info_at ?t p \<noteq> None} \<longleftrightarrow>
        p \<in> (if fi = None then {} else {[]}) \<union> {p. p \<noteq> [] \<and> info_at ?t p \<noteq> None}" for p
      by (cases p) auto
  qed
  let ?ps = "(if fi = None then [] else [[]]) @ ?below"
  have "\<forall>y \<in> set ?below. [] < y" unfolding below by (auto simp: neq_Nil_conv)
  with srt have "sorted_wrt (<) ?ps" by simp
  moreover have "msgs = map ?g ?ps" by (cases fi) (simp_all only: msgs own conc, simp_all)
  moreover have "set ?ps = {p. info_at ?t p \<noteq> None}"
    unfolding all below [symmetric] by simp
  ultimately have "lists_paths ?t path msgs ?ps" unfolding lists_paths_def by blast
  then show ?case by blast
qed

lemma list_files_lists:
  assumes "list_files t dir = Inr msgs"
  shows "\<exists>ps. msgs = map (\<lambda>p. p @ [CHR 0x0A]) ps \<and> sorted_wrt (<) ps \<and>
           set ps = {p. prefix dir p \<and> info_at t p \<noteq> None}"
proof (cases "find_trie_node t dir")
  case None
  then have "info_at t p = None" if "prefix dir p" for p
    using that by (auto simp: prefix_def info_at_append)
  with None assms show ?thesis by (intro exI [of _ "[]"]) (auto simp: list_files_def)
next
  case (Some n)
  with assms obtain ps where ps: "lists_paths n dir msgs ps"
    using traverse_trie_lists by (fastforce simp: list_files_def)
  have "set (map ((@) dir) ps) = {p. prefix dir p \<and> info_at t p \<noteq> None}"
    using ps Some by (auto simp: lists_paths_def info_at_append prefix_def)
  moreover have "sorted_wrt (<) (map ((@) dir) ps)"
  proof -
    have "dir @ x < dir @ y" if "x < y" for x y
      using that by (induction dir) auto
    then show ?thesis
      using ps by (auto simp: lists_paths_def sorted_wrt_map elim: sorted_wrt_mono_rel [rotated])
  qed
  ultimately show ?thesis
    using ps by (intro exI [of _ "map ((@) dir) ps"]) (auto simp: lists_paths_def)
qed

text \<open>A listing overflows no buffer when every node is within the path buffers.\<close>

lemma concat_results_total:
  "(\<forall>m \<in> set ms. \<exists>x. m = Inr x) \<Longrightarrow> \<exists>x. concat_results ms = Inr x"
  by (induction ms) auto

lemma traverse_trie_total:
  assumes "\<And>p. find_trie_node t p \<noteq> None \<Longrightarrow> length path + length p < 255"
  shows "\<exists>msgs. traverse_trie t path = Inr msgs"
  using assms
proof (induction t arbitrary: path rule: TrieNode_children_induct)
  case (TrieNode ch fi)
  have len: "length path < 255" using TrieNode.prems [of "[]"] by simp
  have "\<exists>x. traverse_trie u (path @ [c]) = Inr x" if "ch c = Some u" for c u
  proof (rule TrieNode.IH [OF that])
    show "length (path @ [c]) + length p < 255" if "find_trie_node u p \<noteq> None" for p
      using TrieNode.prems [of "c # p"] that \<open>ch c = Some u\<close> by auto
  qed
  then have "\<exists>x. concat_results (map (\<lambda>i::nat. case map_option traverse_trie (ch (char_of i)) of
      None \<Rightarrow> Inr []
    | Some go \<Rightarrow> if 256 \<le> length path then Inl Overflow else go (path @ [char_of i])) [0..<256]) = Inr x"
    using len by (intro concat_results_total) (auto split: option.splits)
  then show ?case using len by (auto split: option.splits)
qed

end
