(* ===== verification/NM_State.thy ===== *)
theory NM_State
  imports World Cache Path_Trie
begin

text \<open>
  The global memory of the naming server (\<open>naming_server.c\<close> and \<open>naming_utils.c\<close>):
  the lookup cache, the path trie, the table of storage servers and the table of pending
  asynchronous writes, on top of the trace of its system calls. Threads share this memory
  without locks; a handler is modelled as one uninterrupted run over it.

  Only the first \<open>server_count\<close> rows of \<open>storage_servers\<close> and the first
  \<open>write_client_count\<close> rows of \<open>write_clients\<close> are ever read, so each table is the list of
  these rows.

  A \<open>FILEINFO *\<close> points into the cache or into the trie. Keeping it a pointer matters:
  the cache moves entries underneath it.
\<close>

section \<open>Memory\<close>

record ClientInfo =
  ci_ip :: string
  ci_port :: int
  ci_ss_ip :: string
  ci_ss_port :: int
  ci_file_path :: string
  ci_status :: int
  ci_active :: int

record ClientConnection =
  socket_fd :: nat
  cc_ip :: string
  cc_port :: int

record nm = world +
  nm_cache :: lru_cache
  file_trie :: TrieNode
  storage_servers :: "StorageServerInfo list"
  write_clients :: "ClientInfo list"

abbreviation server_count :: "nm \<Rightarrow> nat" where
  "server_count s \<equiv> length (storage_servers s)"

abbreviation write_client_count :: "nm \<Rightarrow> nat" where
  "write_client_count s \<equiv> length (write_clients s)"

definition initial_nm :: nm where
  "initial_nm = \<lparr>trace = [], nm_cache = empty_cache, file_trie = create_trie,
                storage_servers = [], write_clients = []\<rparr>"

datatype fi_ptr =
    CachePtr          \<comment> \<open>\<open>&cache[0].file_info\<close>\<close>
  | TriePtr string    \<comment> \<open>\<open>node->file_info\<close> of the node at a path\<close>

definition deref :: "nm \<Rightarrow> fi_ptr \<Rightarrow> FILEINFO result" where
  "deref s p =
     (case p of
        CachePtr \<Rightarrow> Inr (cache_top (nm_cache s))
      | TriePtr q \<Rightarrow> (case info_at (file_trie s) q of None \<Rightarrow> Inl NullDeref | Some v \<Rightarrow> Inr v))"

section \<open>Lookups through the cache\<close>

definition find_file_info :: "string \<Rightarrow> nm \<Rightarrow> (fi_ptr option \<times> nm) result" where
  "find_file_info file_path s =
     andthen (find_in_cache file_path (nm_cache s)) (\<lambda>(hit, c).
       let s = s\<lparr>nm_cache := c\<rparr> in
       if hit then Inr (Some CachePtr, s)
       else
         (case find_trie_node (file_trie s) file_path of
            None \<Rightarrow> Inr (None, s)
          | Some node \<Rightarrow>
              (case file_info node of
                 None \<Rightarrow> Inr (None, s)
               | Some v \<Rightarrow>
                   Inr (Some (TriePtr file_path),
                        s\<lparr>nm_cache := add_to_cache file_path v (nm_cache s)\<rparr>))))"

definition find_directory_info :: "string \<Rightarrow> nm \<Rightarrow> (fi_ptr option \<times> nm) result" where
  "find_directory_info dir_path s =
     andthen (find_in_cache dir_path (nm_cache s)) (\<lambda>(hit, c).
       let s = s\<lparr>nm_cache := c\<rparr> in
       if hit then Inr (Some CachePtr, s)
       else
         (case find_trie_node (file_trie s) dir_path of
            None \<Rightarrow> Inr (None, s)
          | Some node \<Rightarrow>
              (case file_info node of
                 None \<Rightarrow> Inr (None, s)
               | Some v \<Rightarrow>
                   Inr (Some (TriePtr dir_path),
                        s\<lparr>nm_cache := add_to_cache dir_path v (nm_cache s)\<rparr>))))"

lemma find_directory_info_eq: "find_directory_info = find_file_info"
  by (simp add: fun_eq_iff find_directory_info_def find_file_info_def)

section \<open>A cache in front of an index\<close>

text \<open>
  Any cache with the contract of \<open>recency_cache\<close> in front of any index with the
  contract of \<open>path_index\<close> answers as the index does, as long as the two are
  coherent: every cached value is the value of the index.
\<close>

locale cached_index =
  recency_cache find add remove top view inv key_ok + path_index lookup update delete
  for find :: "string \<Rightarrow> 'c \<Rightarrow> (bool \<times> 'c) result"
    and add :: "string \<Rightarrow> 'v \<Rightarrow> 'c \<Rightarrow> 'c"
    and remove :: "string \<Rightarrow> 'c \<Rightarrow> 'c result"
    and top :: "'c \<Rightarrow> 'v"
    and view :: "'c \<Rightarrow> string \<Rightarrow> 'v option"
    and inv :: "'c \<Rightarrow> bool"
    and key_ok :: "string \<Rightarrow> bool"
    and lookup :: "'t \<Rightarrow> string \<Rightarrow> 'v option"
    and update :: "string \<Rightarrow> 'v \<Rightarrow> 't \<Rightarrow> 't"
    and delete :: "'t \<Rightarrow> string \<Rightarrow> 't"
begin

definition coherent_pair :: "'c \<Rightarrow> 't \<Rightarrow> bool" where
  "coherent_pair c t \<longleftrightarrow> inv c \<and> view c \<subseteq>\<^sub>m lookup t"

definition cached_lookup :: "string \<Rightarrow> 'c \<Rightarrow> 't \<Rightarrow> ('v option \<times> 'c) result" where
  "cached_lookup p c t =
     andthen (find p c) (\<lambda>(hit, c').
       if hit then Inr (Some (top c'), c')
       else (case lookup t p of None \<Rightarrow> Inr (None, c') | Some v \<Rightarrow> Inr (Some v, add p v c')))"

lemma cached_lookup_correct:
  assumes "coherent_pair c t" and "key_ok p"
  shows "wp (\<lambda>(r, c'). r = lookup t p \<and> coherent_pair c' t) (cached_lookup p c t)"
proof -
  from assms(1) have inv: "inv c" and le: "view c \<subseteq>\<^sub>m lookup t"
    by (simp_all add: coherent_pair_def)
  obtain hit c' where find: "find p c = Inr (hit, c')" and inv': "inv c'"
    and view': "view c' = view c" and at: "view c p = (if hit then Some (top c') else None)"
    using find_law [OF inv, of p] by (auto simp: wp_iff)
  show ?thesis
  proof (cases hit)
    case True
    then have "lookup t p = Some (top c')" using le at by (auto simp: map_le_def dom_def)
    then show ?thesis using True find inv' view' le by (simp add: cached_lookup_def coherent_pair_def)
  next
    case False
    have "coherent_pair (add p v c') t" if "lookup t p = Some v" for v
    proof -
      from False at view' have none: "view c' p = None" by simp
      have "view (add p v c') \<subseteq>\<^sub>m (view c')(p \<mapsto> v)"
        using add_view [OF inv' assms(2) none] by simp
      also have "(view c')(p \<mapsto> v) \<subseteq>\<^sub>m lookup t"
        using le view' that by (auto simp: map_le_def)
      finally show ?thesis
        using add_inv [OF inv' assms(2) none] by (simp add: coherent_pair_def)
    qed
    then show ?thesis
      using False find inv' view' le
      by (auto simp: cached_lookup_def coherent_pair_def split: option.split)
  qed
qed

text \<open>After a successful lookup the path is cached.\<close>

lemma cached_lookup_caches:
  assumes "coherent_pair c t" and "key_ok p" and "lookup t p = Some v"
  shows "wp (\<lambda>(r, c'). view c' p = Some v) (cached_lookup p c t)"
proof -
  from assms(1) have inv: "inv c" and le: "view c \<subseteq>\<^sub>m lookup t"
    by (simp_all add: coherent_pair_def)
  obtain hit c' where find: "find p c = Inr (hit, c')" and inv': "inv c'"
    and view': "view c' = view c" and at: "view c p = (if hit then Some (top c') else None)"
    using find_law [OF inv, of p] by (auto simp: wp_iff)
  show ?thesis
  proof (cases hit)
    case True
    with at le assms(3) have "view c p = Some v" by (auto simp: map_le_def dom_def)
    with True find view' show ?thesis by (simp add: cached_lookup_def)
  next
    case False
    with at view' have "view c' p = None" by simp
    with add_view [OF inv' assms(2), of v] False find assms(3) show ?thesis
      by (simp add: cached_lookup_def)
  qed
qed

lemma remove_delete_coherent:
  assumes "coherent_pair c t"
  shows "wp (\<lambda>c'. coherent_pair c' (delete t p)) (remove p c)"
proof -
  from assms have "inv c" by (simp add: coherent_pair_def)
  from remove_law [OF this, of p] show ?thesis
    using assms by (auto simp: wp_iff coherent_pair_def lookup_delete map_le_def)
qed

lemma update_coherent:
  assumes "coherent_pair c t" and "view c p = None \<or> view c p = Some v"
  shows "coherent_pair c (update p v t)"
  using assms by (auto simp: coherent_pair_def lookup_update map_le_def dom_def)

lemma update_stale:
  assumes "coherent_pair c t" and "view c p = Some w" and "w \<noteq> v"
  shows "\<not> coherent_pair c (update p v t)"
  using assms by (auto simp: coherent_pair_def lookup_update map_le_def dom_def)

end

interpretation names: cached_index find_in_cache add_to_cache remove_from_cache
  cache_top cache_view cache_wf path_ok info_at trie_put delete_file_info
  by unfold_locales

definition coherent :: "nm \<Rightarrow> bool" where
  "coherent s \<longleftrightarrow> cache_wf (nm_cache s) \<and> cache_view (nm_cache s) \<subseteq>\<^sub>m info_at (file_trie s)"

lemma coherent_pair: "coherent s \<longleftrightarrow> names.coherent_pair (nm_cache s) (file_trie s)"
  by (simp add: coherent_def names.coherent_pair_def)

lemma coherent_initial: "coherent initial_nm"
  by (simp add: coherent_def initial_nm_def cache_wf_empty cache_view_def)

text \<open>What a lookup leaves alone.\<close>

definition same_but_cache :: "nm \<Rightarrow> nm \<Rightarrow> bool" where
  "same_but_cache s s' \<longleftrightarrow> s' = s\<lparr>nm_cache := nm_cache s'\<rparr>"

lemma same_but_cacheD:
  assumes "same_but_cache s s'"
  shows "file_trie s' = file_trie s" and "storage_servers s' = storage_servers s"
    and "write_clients s' = write_clients s" and "trace s' = trace s"
  using assms by (cases s; cases s'; auto simp: same_but_cache_def)+

lemma find_file_info_cached:
  "find_file_info p s =
     andthen (find_in_cache p (nm_cache s)) (\<lambda>(hit, c).
       if hit then Inr (Some CachePtr, s\<lparr>nm_cache := c\<rparr>)
       else (case info_at (file_trie s) p of
               None \<Rightarrow> Inr (None, s\<lparr>nm_cache := c\<rparr>)
             | Some v \<Rightarrow> Inr (Some (TriePtr p), s\<lparr>nm_cache := add_to_cache p v c\<rparr>)))"
  unfolding find_file_info_def
  by (rule arg_cong [of _ _ "andthen _"])
    (auto simp: fun_eq_iff Let_def info_at_def split: option.splits prod.splits)

text \<open>
  The pointer a lookup returns reads as the record of the trie, and it is NULL exactly when
  the trie has none.
\<close>

lemma find_file_info_wp [wp_intros]:
  assumes coh: "coherent s" and "path_ok p"
  shows "wp (\<lambda>(r, s'). coherent s' \<and> same_but_cache s s' \<and>
            (case info_at (file_trie s) p of
               None \<Rightarrow> r = None
             | Some v \<Rightarrow> \<exists>q. r = Some q \<and> deref s' q = Inr v)) (find_file_info p s)"
proof -
  from coh have pair: "names.coherent_pair (nm_cache s) (file_trie s)" by (simp add: coherent_pair)
  have look: "wp (\<lambda>(r, c). r = info_at (file_trie s) p \<and> names.coherent_pair c (file_trie s))
      (names.cached_lookup p (nm_cache s) (file_trie s))"
    using pair assms(2) by (rule names.cached_lookup_correct)
  show ?thesis
  proof (cases "find_in_cache p (nm_cache s)")
    case (Inl e)
    with look show ?thesis by (simp add: names.cached_lookup_def)
  next
    case (Inr hc)
    obtain hit c where "hc = (hit, c)" by (cases hc)
    with Inr look show ?thesis
      by (auto simp: find_file_info_cached names.cached_lookup_def coherent_pair
          same_but_cache_def deref_def split: option.splits)
  qed
qed

lemma find_file_info_caches:
  assumes coh: "coherent s" and ok: "path_ok p" and at: "info_at (file_trie s) p = Some v"
  shows "wp (\<lambda>(r, s'). cache_view (nm_cache s') p = Some v) (find_file_info p s)"
proof -
  from coh have pair: "names.coherent_pair (nm_cache s) (file_trie s)" by (simp add: coherent_pair)
  from names.cached_lookup_caches [OF pair ok at] at show ?thesis
    by (cases "find_in_cache p (nm_cache s)")
      (auto simp: find_file_info_cached names.cached_lookup_def)
qed

lemma find_file_info_frame [wp_intros]:
  "wlp (\<lambda>(r, s'). same_but_cache s s') (find_file_info p s)"
  by (auto simp: wlp_iff find_file_info_cached andthen_eq_Inr same_but_cache_def
      split: if_splits option.splits prod.splits)

end
