(* ===== verification/NM_Servers.thy ===== *)
theory NM_Servers
  imports NM_State
begin

text \<open>
  The table of storage servers and the operations every handler of the naming server uses
  on it (\<open>naming_server.c\<close>): the log, the activity check, the queue of commands kept for
  an inactive server, and the home directory of a server, which \<open>strtok\<close> cuts out of the
  registered path list in place.
\<close>

section \<open>Log\<close>

definition log_text :: "peer_type \<Rightarrow> int \<Rightarrow> int \<Rightarrow> request_type \<Rightarrow> string \<Rightarrow> int \<Rightarrow> string" where
  "log_text type ss_id port req data status =
     ''Communicating with '' @ (if type = SS then ''Storage Server'' else ''Client'') @ nl @
     (if type = SS then
        ''Storage Server ID                 : '' @ dec ss_id @ nl @
        ''Storage Server Port number        : '' @ dec port @ nl
      else
        ''NS & client Port number           : '' @ dec NS_PORT @ nl) @
     ''NS Port number                    : '' @ dec NS_PORT @ nl @
     ''Request type                      : '' @ dec (request_code req) @ nl @
     ''Request data                      : '' @ data @ nl @
     ''Status                            : '' @ dec status @ nl @ nl"

text \<open>The record is appended when the log file opens; otherwise the call returns 0.\<close>

definition insert_log ::
  "env \<Rightarrow> peer_type \<Rightarrow> int \<Rightarrow> int \<Rightarrow> request_type \<Rightarrow> string \<Rightarrow> int \<Rightarrow> 'a world_scheme \<Rightarrow> 'a world_scheme" where
  "insert_log E type ss_id port req data status s =
     (if e_log E (trace s) then emit (Logged (log_text type ss_id port req data status)) s
      else emit (SysFail ''fopen'') s)"

section \<open>Looking servers up\<close>

definition server_index :: "string \<Rightarrow> int \<Rightarrow> nm \<Rightarrow> nat option" where
  "server_index ip port s =
     find_index (\<lambda>x. ss_ip x = ip \<and> ss_port_client x = port) (storage_servers s)"

definition check_active_server :: "string \<Rightarrow> int \<Rightarrow> nm \<Rightarrow> int" where
  "check_active_server ip port s =
     (case server_index ip port s of
        None \<Rightarrow> 0
      | Some i \<Rightarrow> ss_is_active (storage_servers s ! i))"

text \<open>
  \<open>addcommand\<close>: \<open>strcpy\<close> into row \<open>command_count\<close> of \<open>commands[1000][5000]\<close>, without a
  check of either bound.
\<close>

definition addcommand :: "string \<Rightarrow> int \<Rightarrow> string \<Rightarrow> nm \<Rightarrow> nm result" where
  "addcommand ip port command s =
     (case server_index ip port s of
        None \<Rightarrow> Inr s
      | Some i \<Rightarrow>
          let x = storage_servers s ! i in
          if MAX_COMMANDS \<le> ss_command_count x then Inl Overflow
          else andthen (strcpy 5000 command) (\<lambda>row.
            Inr (s\<lparr>storage_servers := (storage_servers s)
                     [i := x\<lparr>ss_commands := ss_commands x @ [row]\<rparr>]\<rparr>)))"

text \<open>
  \<open>strtok(storage_servers[i].accessible_paths, ",")\<close>: the first path, and the list cut
  behind it. A NULL token is passed on to \<open>strcpy\<close> by every caller.
\<close>

definition cut_paths :: "nat \<Rightarrow> nm \<Rightarrow> (string \<times> nm) result" where
  "cut_paths i s =
     (let x = storage_servers s ! i in
      case strtok_first (CHR '','') (ss_accessible_paths x) of
        (None, _) \<Rightarrow> Inl NullDeref
      | (Some t, buf) \<Rightarrow>
          Inr (t, s\<lparr>storage_servers := (storage_servers s)[i := x\<lparr>ss_accessible_paths := buf\<rparr>]\<rparr>))"

text \<open>
  \<open>getaccesspath\<close>: the first path of the first matching server that has one. NULL when
  there is none.
\<close>

fun getaccesspath_from :: "string \<Rightarrow> int \<Rightarrow> StorageServerInfo list \<Rightarrow> string option \<times> StorageServerInfo list" where
  "getaccesspath_from ip port [] = (None, [])"
| "getaccesspath_from ip port (x # xs) =
     (if ss_port_client x = port \<and> ss_ip x = ip then
        (case strtok_first (CHR '','') (ss_accessible_paths x) of
           (Some t, buf) \<Rightarrow> (Some t, x\<lparr>ss_accessible_paths := buf\<rparr> # xs)
         | (None, _) \<Rightarrow> (let (r, ys) = getaccesspath_from ip port xs in (r, x # ys)))
      else (let (r, ys) = getaccesspath_from ip port xs in (r, x # ys)))"

definition getaccesspath :: "string \<Rightarrow> int \<Rightarrow> nm \<Rightarrow> string option \<times> nm" where
  "getaccesspath ip port s =
     (let (r, ys) = getaccesspath_from ip port (storage_servers s)
      in (r, s\<lparr>storage_servers := ys\<rparr>))"

section \<open>Frame facts\<close>

text \<open>System calls change nothing but the trace.\<close>

definition only_trace :: "nm \<Rightarrow> nm \<Rightarrow> bool" where
  "only_trace s s' \<longleftrightarrow> s' = s\<lparr>trace := trace s'\<rparr>"

lemma only_traceD:
  assumes "only_trace s s'"
  shows "nm_cache s' = nm_cache s" and "file_trie s' = file_trie s"
    and "storage_servers s' = storage_servers s" and "write_clients s' = write_clients s"
  using assms by (cases s; cases s'; auto simp: only_trace_def)+

lemma only_trace_refl [simp]: "only_trace s s"
  by (simp add: only_trace_def)

lemma only_trace_trans [trans]: "only_trace s t \<Longrightarrow> only_trace t u \<Longrightarrow> only_trace s u"
  by (cases s; cases t; cases u) (auto simp: only_trace_def)

lemma only_trace_emit [simp]: "only_trace s (emit ev s)"
  by (simp add: only_trace_def emit_def)

lemma emit_fields [simp]:
  "nm_cache (emit ev s) = nm_cache s" "file_trie (emit ev s) = file_trie s"
  "storage_servers (emit ev s) = storage_servers s" "write_clients (emit ev s) = write_clients s"
  by (simp_all add: emit_def)

lemma send_fields [simp]:
  "nm_cache (net_send c p s) = nm_cache s" "file_trie (net_send c p s) = file_trie s"
  "storage_servers (net_send c p s) = storage_servers s"
  "write_clients (net_send c p s) = write_clients s"
  by (simp_all add: net_send_def)

lemma send_text_fields [simp]:
  "nm_cache (send_text c p s) = nm_cache s" "file_trie (send_text c p s) = file_trie s"
  "storage_servers (send_text c p s) = storage_servers s"
  "write_clients (send_text c p s) = write_clients s"
  by (simp_all add: send_text_def)

lemma close_fields [simp]:
  "nm_cache (net_close c s) = nm_cache s" "file_trie (net_close c s) = file_trie s"
  "storage_servers (net_close c s) = storage_servers s"
  "write_clients (net_close c s) = write_clients s"
  by (simp_all add: net_close_def)

lemma log_fields [simp]:
  "nm_cache (insert_log E ty i p r d st s) = nm_cache s"
  "file_trie (insert_log E ty i p r d st s) = file_trie s"
  "storage_servers (insert_log E ty i p r d st s) = storage_servers s"
  "write_clients (insert_log E ty i p r d st s) = write_clients s"
  by (simp_all add: insert_log_def)

lemma replies_log [simp]: "replies c (insert_log E ty i p r d st s) = replies c s"
  by (simp add: insert_log_def)

lemma replies_memory [simp]:
  "replies c (s\<lparr>nm_cache := x\<rparr>) = replies c (s :: nm)"
  "replies c (s\<lparr>file_trie := t\<rparr>) = replies c s"
  "replies c (s\<lparr>storage_servers := y\<rparr>) = replies c s"
  "replies c (s\<lparr>write_clients := z\<rparr>) = replies c s"
  by (simp_all add: replies_def)

lemma dial_fields:
  assumes "dial E ip port s = (d, s')"
  shows "nm_cache s' = nm_cache s" and "file_trie s' = file_trie s"
    and "storage_servers s' = storage_servers s" and "write_clients s' = write_clients s"
    and "replies c s' = replies c s"
  using assms by (auto simp: dial_def split: if_splits)

lemma dial_unchecked_fields:
  assumes "dial_unchecked E ip port s = (d, s')"
  shows "nm_cache s' = nm_cache s" and "file_trie s' = file_trie s"
    and "storage_servers s' = storage_servers s" and "write_clients s' = write_clients s"
    and "replies c s' = replies c s"
  using assms by (auto simp: dial_unchecked_def Let_def split: if_splits)

lemma recv_fields:
  assumes "net_recv E ch n s = (r, s')"
  shows "nm_cache s' = nm_cache s" and "file_trie s' = file_trie s"
    and "storage_servers s' = storage_servers s" and "write_clients s' = write_clients s"
    and "replies c s' = replies c s"
  using assms by (auto simp: net_recv_def split: option.splits)

lemma server_index_cong: "storage_servers s' = storage_servers s \<Longrightarrow> server_index ip port s' = server_index ip port s"
  by (simp add: server_index_def)

lemma check_active_cong:
  "storage_servers s' = storage_servers s \<Longrightarrow> check_active_server ip port s' = check_active_server ip port s"
  by (simp add: check_active_server_def server_index_def cong: option.case_cong)

lemma coherent_cong:
  "nm_cache s' = nm_cache s \<Longrightarrow> file_trie s' = file_trie s \<Longrightarrow> coherent s' \<longleftrightarrow> coherent s"
  by (simp add: coherent_def)

section \<open>Facts on the table\<close>

lemma server_index_Some:
  "server_index ip port s = Some i \<longleftrightarrow>
     i < server_count s \<and> ss_ip (storage_servers s ! i) = ip \<and>
     ss_port_client (storage_servers s ! i) = port \<and>
     (\<forall>j < i. ss_ip (storage_servers s ! j) \<noteq> ip \<or> ss_port_client (storage_servers s ! j) \<noteq> port)"
  by (auto simp: server_index_def find_index_Some)

text \<open>
  A queued command is appended to the queue of the first row with this address; nothing
  else changes, and commands come out in the order they went in.
\<close>

lemma addcommand_wp [wp_intros]:
  assumes i: "server_index ip port s = Some i"
    and room: "ss_command_count (storage_servers s ! i) < MAX_COMMANDS" and "length command < 5000"
  shows "wp (\<lambda>s'. ss_commands (storage_servers s' ! i) = ss_commands (storage_servers s ! i) @ [command] \<and>
           (\<forall>j. j \<noteq> i \<longrightarrow> storage_servers s' ! j = storage_servers s ! j) \<and>
           server_count s' = server_count s \<and> file_trie s' = file_trie s \<and>
           nm_cache s' = nm_cache s \<and> trace s' = trace s) (addcommand ip port command s)"
proof -
  have "i < server_count s" using i by (simp add: server_index_Some)
  with assms show ?thesis by (simp add: addcommand_def i Let_def)
qed

lemma addcommand_frame [wp_intros]:
  "wlp (\<lambda>s'. file_trie s' = file_trie s \<and> nm_cache s' = nm_cache s \<and> trace s' = trace s \<and>
             write_clients s' = write_clients s \<and> server_count s' = server_count s)
     (addcommand ip port command s)"
  by (auto simp: wlp_iff addcommand_def Let_def andthen_eq_Inr split: option.splits if_splits)

lemma cut_paths_frame [wp_intros]:
  "wlp (\<lambda>(t, s'). file_trie s' = file_trie s \<and> nm_cache s' = nm_cache s \<and> trace s' = trace s \<and>
             write_clients s' = write_clients s \<and> server_count s' = server_count s)
     (cut_paths i s)"
  by (auto simp: wlp_iff cut_paths_def Let_def split: prod.splits option.splits)

text \<open>The home directory of a server survives the cut: cutting twice finds it again.\<close>

lemma cut_paths_idem:
  assumes "i < server_count s" and "cut_paths i s = Inr (t, s')"
  shows "cut_paths i s' = Inr (t, s')"
proof -
  from assms(2) obtain buf where
    cut: "strtok_first (CHR '','') (ss_accessible_paths (storage_servers s ! i)) = (Some t, buf)"
    and s': "s' = s\<lparr>storage_servers := (storage_servers s)
                 [i := (storage_servers s ! i)\<lparr>ss_accessible_paths := buf\<rparr>]\<rparr>"
    by (auto simp: cut_paths_def Let_def split: prod.splits option.splits)
  with assms(1) show ?thesis
    by (simp add: cut_paths_def Let_def strtok_first_idem [OF cut])
qed

lemma cut_paths_first:
  assumes "cut_paths i s = Inr (t, s')"
  shows "\<exists>rest. strtok_all (CHR '','') (ss_accessible_paths (storage_servers s ! i)) = t # rest"
  using assms strtok_first_all [of "CHR '',''" "ss_accessible_paths (storage_servers s ! i)"]
  by (auto simp: cut_paths_def Let_def split: prod.splits option.splits list.splits)

lemma length_getaccesspath_from: "length (snd (getaccesspath_from ip port xs)) = length xs"
  by (induction xs) (auto split: prod.splits option.splits)

lemma getaccesspath_fields:
  assumes "getaccesspath ip port s = (r, s')"
  shows "nm_cache s' = nm_cache s" and "file_trie s' = file_trie s"
    and "server_count s' = server_count s" and "write_clients s' = write_clients s"
    and "trace s' = trace s"
  using assms length_getaccesspath_from [of ip port "storage_servers s"]
  by (auto simp: getaccesspath_def split: prod.splits)

end
