(* ===== verification/Sample.thy ===== *)
theory Sample
  imports NM_Servers
begin

text \<open>
  Small concrete memories and an environment, on which the properties are applied: one
  storage server that owns a directory and a file, and the same server with a backup that
  is down.
\<close>

section \<open>Memories\<close>

definition owner_row :: StorageServerInfo where
  "owner_row = \<lparr>ss_ip = ''10.0.0.1'', ss_port_nm = 5001, ss_port_client = 5002,
     ss_accessible_paths = ''d,d/f.c'', ss_ss_port = 5003, ss_is_active = 1,
     ss_backup_ip1 = '''', ss_backup_port1 = 0, ss_backup_ip2 = '''', ss_backup_port2 = 0,
     ss_commands = []\<rparr>"

definition spare_row :: StorageServerInfo where
  "spare_row = \<lparr>ss_ip = ''10.0.0.2'', ss_port_nm = 6001, ss_port_client = 6002,
     ss_accessible_paths = ''e'', ss_ss_port = 6003, ss_is_active = 0,
     ss_backup_ip1 = '''', ss_backup_port1 = 0, ss_backup_ip2 = '''', ss_backup_port2 = 0,
     ss_commands = [''CREATE e/d old.c'']\<rparr>"

definition dir_info :: FILEINFO where
  "dir_info = \<lparr>fi_ip = ''10.0.0.1'', fi_port_client = 5002, fi_file_path = ''d''\<rparr>"

definition leaf_info :: FILEINFO where
  "leaf_info = \<lparr>fi_ip = ''10.0.0.1'', fi_port_client = 5002, fi_file_path = ''d/f.c''\<rparr>"

definition sample_trie :: TrieNode where
  "sample_trie = trie_put ''d/f.c'' leaf_info (trie_put ''d'' dir_info create_trie)"

definition sample_nm :: nm where
  "sample_nm = initial_nm\<lparr>file_trie := sample_trie, storage_servers := [owner_row]\<rparr>"

text \<open>The owner is backed up by the spare server, which is down.\<close>

definition backed_nm :: nm where
  "backed_nm = initial_nm\<lparr>file_trie := sample_trie,
     storage_servers := [owner_row\<lparr>ss_backup_ip1 := ''10.0.0.2'', ss_backup_port1 := 6002\<rparr>, spare_row]\<rparr>"

text \<open>Both paths are cached, the file most recently.\<close>

definition cached_nm :: nm where
  "cached_nm = sample_nm\<lparr>nm_cache :=
     add_to_cache ''d/f.c'' leaf_info (add_to_cache ''d'' dir_info empty_cache)\<rparr>"

text \<open>The owner is down and its backup is up; and the first two of three servers.\<close>

definition failover_nm :: nm where
  "failover_nm = initial_nm\<lparr>file_trie := sample_trie,
     storage_servers := [owner_row\<lparr>ss_is_active := 0, ss_backup_ip1 := ''10.0.0.2'', ss_backup_port1 := 6002\<rparr>,
                         spare_row\<lparr>ss_is_active := 1\<rparr>]\<rparr>"

definition two_nm :: nm where
  "two_nm = initial_nm\<lparr>file_trie := sample_trie, storage_servers := [owner_row, spare_row\<lparr>ss_is_active := 1\<rparr>]\<rparr>"

definition third_row :: StorageServerInfo where
  "third_row = owner_row\<lparr>ss_ip := ''10.0.0.3'', ss_accessible_paths := ''g''\<rparr>"

text \<open>A pending write of a path, and a memory with one or two of them.\<close>

definition pending :: "string \<Rightarrow> int \<Rightarrow> ClientInfo" where
  "pending p status = \<lparr>ci_ip = ''10.1.0.1'', ci_port = 7000, ci_ss_ip = ''10.0.0.1'', ci_ss_port = 5002,
     ci_file_path = p, ci_status = status, ci_active = 1\<rparr>"

definition sample_client :: ClientConnection where
  "sample_client = \<lparr>socket_fd = 4, cc_ip = ''10.1.0.1'', cc_port = 7000\<rparr>"

definition sample_env :: env where
  "sample_env = \<lparr>e_socket = \<lambda>_. True, e_pton = \<lambda>_. True, e_connect = \<lambda>_ _ _. True,
     e_recv = \<lambda>_ _. Some ''success'', e_recv_info = \<lambda>_ _. owner_row, e_log = \<lambda>_. True,
     e_junk = \<lambda>_. ''xyz'', e_getcwd = \<lambda>_. Some ''/srv'', e_stat = \<lambda>_ _. Some True\<rparr>"

section \<open>Their facts\<close>

lemma info_at_sample [simp]:
  "info_at sample_trie = [''d'' \<mapsto> dir_info, ''d/f.c'' \<mapsto> leaf_info]"
proof -
  have "info_at create_trie = Map.empty" by (simp add: create_trie_def fun_eq_iff)
  then show ?thesis by (simp add: sample_trie_def trie.lookup_update)
qed

lemma sample_fields [simp]:
  "file_trie sample_nm = sample_trie" "storage_servers sample_nm = [owner_row]"
  "nm_cache sample_nm = empty_cache" "write_clients sample_nm = []" "trace sample_nm = []"
  by (simp_all add: sample_nm_def initial_nm_def)

lemma backed_fields [simp]:
  "file_trie backed_nm = sample_trie" "nm_cache backed_nm = empty_cache" "trace backed_nm = []"
  "storage_servers backed_nm =
     [owner_row\<lparr>ss_backup_ip1 := ''10.0.0.2'', ss_backup_port1 := 6002\<rparr>, spare_row]"
  by (simp_all add: backed_nm_def initial_nm_def)

lemma failover_fields [simp]:
  "file_trie failover_nm = sample_trie" "nm_cache failover_nm = empty_cache" "trace failover_nm = []"
  "storage_servers failover_nm =
     [owner_row\<lparr>ss_is_active := 0, ss_backup_ip1 := ''10.0.0.2'', ss_backup_port1 := 6002\<rparr>,
      spare_row\<lparr>ss_is_active := 1\<rparr>]"
  by (simp_all add: failover_nm_def initial_nm_def)

lemma two_fields [simp]:
  "file_trie two_nm = sample_trie" "trace two_nm = []"
  "storage_servers two_nm = [owner_row, spare_row\<lparr>ss_is_active := 1\<rparr>]"
  by (simp_all add: two_nm_def initial_nm_def)

lemma cached_fields [simp]:
  "file_trie cached_nm = sample_trie" "storage_servers cached_nm = [owner_row]"
  "trace cached_nm = []" "write_clients cached_nm = []"
  by (simp_all add: cached_nm_def)

lemma sample_replies [simp]: "replies c sample_nm = []" "replies c failover_nm = []" "replies c cached_nm = []"
  by (simp_all add: replies_def)

lemma info_selectors [simp]:
  "fi_ip dir_info = ''10.0.0.1''" "fi_port_client dir_info = 5002" "fi_file_path dir_info = ''d''"
  "fi_ip leaf_info = ''10.0.0.1''" "fi_port_client leaf_info = 5002" "fi_file_path leaf_info = ''d/f.c''"
  by (simp_all add: dir_info_def leaf_info_def)

lemma short_paths [simp]: "path_ok ''d''" "path_ok ''d/f.c''" "path_ok ''nope''"
  by (simp_all add: path_ok_def)

lemma sample_active [simp]:
  "check_active_server ''10.0.0.1'' 5002 sample_nm = 1" "check_active_server ''10.0.0.1'' 5002 cached_nm = 1"
  by (simp_all add: check_active_server_def server_index_def owner_row_def)

lemma coherent_failover [simp]: "coherent failover_nm"
  by (simp add: coherent_def cache_wf_empty cache_view_def)

lemma coherent_sample [simp]: "coherent sample_nm"
  by (simp add: coherent_def cache_wf_empty cache_view_def)

lemma coherent_backed [simp]: "coherent backed_nm"
  by (simp add: coherent_def cache_wf_empty cache_view_def)

lemma cached_live: "live (nm_cache cached_nm) = [(''d/f.c'', leaf_info), (''d'', dir_info)]"
proof -
  have "cache_wf (add_to_cache ''d'' dir_info empty_cache)"
    by (rule add_to_cache_wf) (simp_all add: cache_wf_empty)
  then show ?thesis
    by (simp add: cached_nm_def add_to_cache_live cache_wf_empty lru_add_def)
qed

lemma coherent_cached [simp]: "coherent cached_nm"
proof -
  have one: "cache_wf (add_to_cache ''d'' dir_info empty_cache)"
    by (rule add_to_cache_wf) (simp_all add: cache_wf_empty)
  have "live (add_to_cache ''d'' dir_info empty_cache) = [(''d'', dir_info)]"
    by (simp add: add_to_cache_live cache_wf_empty lru_add_def)
  with one have "cache_wf (nm_cache cached_nm)"
    unfolding cached_nm_def by (simp add: add_to_cache_wf)
  then show ?thesis
    by (simp add: coherent_def cache_view_def cached_live map_le_def)
qed

end
