(* ===== verification/NM_Read.thy ===== *)
theory NM_Read
  imports Sample
begin

text \<open>
  The handlers that only answer a query: \<open>handle_command_info\<close>, \<open>handle_command_stream\<close>
  and \<open>handle_command_read\<close> of \<open>naming_server.c\<close>. Each replies on the client's connection
  with a file record, or with an empty record (port 0) or a text when it has none.
\<close>

section \<open>Handlers\<close>

definition handle_command_info :: "env \<Rightarrow> nat \<Rightarrow> string \<Rightarrow> nm \<Rightarrow> nm result" where
  "handle_command_info E fd arg1 s =
     andthen (find_file_info arg1 s) (\<lambda>(r, s).
       case r of
         None \<Rightarrow>
           Inr (insert_log E CLIENT (int fd) NS_PORT INFO ''File not found'' FILE_NOT_FOUND
                 (net_send (Conn fd) (InfoMsg empty_file_info) s))
       | Some p \<Rightarrow> andthen (deref s p) (\<lambda>fi.
           if check_active_server (fi_ip fi) (fi_port_client fi) s = 0
           then Inr (send_text (Conn fd) ''SERVER NOT ACTIVE'' s)
           else Inr (insert_log E CLIENT (int fd) (fi_port_client fi) INFO ''File info sent'' OK
                       (net_send (Conn fd) (InfoMsg fi) s))))"

text \<open>
  On a miss \<open>handle_command_stream\<close> sends its record and then reads
  \<open>file_info->port_client\<close> through the NULL pointer, for the log.
\<close>

definition handle_command_stream :: "env \<Rightarrow> nat \<Rightarrow> string \<Rightarrow> nm \<Rightarrow> nm result" where
  "handle_command_stream E fd arg1 s =
     andthen (find_file_info arg1 s) (\<lambda>(r, s).
       case r of
         None \<Rightarrow>
           (let s = net_send (Conn fd) (InfoMsg (empty_file_info\<lparr>fi_file_path := ''File not found''\<rparr>)) s
            in Inl NullDeref)
       | Some p \<Rightarrow> andthen (deref s p) (\<lambda>fi.
           if check_active_server (fi_ip fi) (fi_port_client fi) s = 0
           then Inr (net_send (Conn fd)
                       (InfoMsg (empty_file_info\<lparr>fi_file_path := ''SERVER NOT ACTIVE''\<rparr>)) s)
           else Inr (insert_log E CLIENT (int fd) (fi_port_client fi) STREAM
                       ''Stream request processed'' OK
                       (net_send (Conn fd) (InfoMsg fi) s))))"

text \<open>
  The record of a file on a backup server: the copy lies below the home directory of the
  backup. A NULL home directory is passed to \<open>%s\<close>; the path array has 256 bytes.
\<close>

definition redirect :: "string \<Rightarrow> int \<Rightarrow> string \<Rightarrow> nm \<Rightarrow> (FILEINFO \<times> nm) result" where
  "redirect ip port arg1 s =
     (case getaccesspath ip port s of
        (None, s) \<Rightarrow> Inl NullDeref
      | (Some a, s) \<Rightarrow>
          andthen (strcpy MAX_FILE_PATH_SIZE (snprintf 2000 (a @ ''/'' @ arg1))) (\<lambda>path.
            Inr (\<lparr>fi_ip = ip, fi_port_client = port, fi_file_path = path\<rparr>, s)))"

text \<open>
  The loop of \<open>handle_command_read\<close> over the table: the record to answer with, or nothing
  when the owner and both backups are down.
\<close>

definition read_target :: "FILEINFO \<Rightarrow> string \<Rightarrow> nm \<Rightarrow> (FILEINFO option \<times> nm) result" where
  "read_target fi arg1 s =
     (case server_index (fi_ip fi) (fi_port_client fi) s of
        None \<Rightarrow> Inr (Some fi, s)
      | Some i \<Rightarrow>
          let x = storage_servers s ! i in
          if ss_is_active x = 0 then
            if check_active_server (ss_backup_ip1 x) (ss_backup_port1 x) s \<noteq> 0 then
              andthen (redirect (ss_backup_ip1 x) (ss_backup_port1 x) arg1 s) (\<lambda>(r, s). Inr (Some r, s))
            else if check_active_server (ss_backup_ip2 x) (ss_backup_port2 x) s \<noteq> 0 then
              andthen (redirect (ss_backup_ip2 x) (ss_backup_port2 x) arg1 s) (\<lambda>(r, s). Inr (Some r, s))
            else Inr (None, s)
          else Inr (Some fi, s))"

definition handle_command_read :: "env \<Rightarrow> nat \<Rightarrow> string \<Rightarrow> nm \<Rightarrow> nm result" where
  "handle_command_read E fd arg1 s =
     andthen (find_file_info arg1 s) (\<lambda>(r, s).
       case r of
         None \<Rightarrow>
           Inr (insert_log E CLIENT (int fd) NS_PORT READ ''File not found'' FILE_NOT_FOUND
                 (net_send (Conn fd) (InfoMsg empty_file_info) s))
       | Some p \<Rightarrow> andthen (deref s p) (\<lambda>fi.
           andthen (arr_get MAX_FILE_PATH_SIZE (fi_file_path fi)) (\<lambda>_.
           andthen (read_target fi arg1 s) (\<lambda>(target, s).
             case target of
               Some response_info \<Rightarrow>
                 Inr (insert_log E CLIENT (int fd) NS_PORT READ ''Read request processed'' OK
                       (net_send (Conn fd) (InfoMsg response_info) s))
             | None \<Rightarrow>
                 Inr (insert_log E CLIENT (int fd) NS_PORT READ ''File not found'' FILE_NOT_FOUND
                       (net_send (Conn fd) (InfoMsg empty_file_info) s))))))"

section \<open>Lookups of a handler\<close>

text \<open>
  Every handler starts with a lookup. With a coherent cache the handler behaves as if it
  had read the trie, in a state that differs in the cache only.
\<close>

lemma lookup_cases:
  assumes "coherent s" and "path_ok p"
  obtains (none) s' where "find_file_info p s = Inr (None, s')" and "coherent s'"
      and "same_but_cache s s'" and "info_at (file_trie s) p = None"
  | (some) q fi s' where "find_file_info p s = Inr (Some q, s')" and "coherent s'"
      and "same_but_cache s s'" and "info_at (file_trie s) p = Some fi" and "deref s' q = Inr fi"
proof -
  obtain x where "find_file_info p s = Inr x"
    and "(\<lambda>(r, s'). coherent s' \<and> same_but_cache s s' \<and>
            (case info_at (file_trie s) p of
               None \<Rightarrow> r = None
             | Some v \<Rightarrow> \<exists>q. r = Some q \<and> deref s' q = Inr v)) x"
    using find_file_info_wp [OF assms] unfolding wp_iff by blast
  then obtain r s' where eq: "find_file_info p s = Inr (r, s')" and coh: "coherent s'"
    and frame: "same_but_cache s s'"
    and r: "case info_at (file_trie s) p of
             None \<Rightarrow> r = None
           | Some v \<Rightarrow> \<exists>q. r = Some q \<and> deref s' q = Inr v"
    by (cases x) simp
  show thesis
  proof (cases "info_at (file_trie s) p")
    case None
    with eq coh frame r show thesis by (intro none) auto
  next
    case (Some fi)
    with r obtain q where "r = Some q" and "deref s' q = Inr fi" by auto
    with eq coh frame Some show thesis by (intro some) auto
  qed
qed

lemma same_but_cache_eqs:
  assumes "same_but_cache s s'"
  shows "replies c s' = replies c s" and "check_active_server ip port s' = check_active_server ip port s"
    and "server_index ip port s' = server_index ip port s"
  using same_but_cacheD [OF assms]
  by (simp_all add: replies_def, auto intro: check_active_cong server_index_cong)

section \<open>INFO\<close>

definition info_answer :: "nm \<Rightarrow> string \<Rightarrow> payload" where
  "info_answer s p =
     (case info_at (file_trie s) p of
        None \<Rightarrow> InfoMsg empty_file_info
      | Some fi \<Rightarrow>
          if check_active_server (fi_ip fi) (fi_port_client fi) s = 0
          then Text ''SERVER NOT ACTIVE'' else InfoMsg fi)"

text \<open>
  INFO answers with the record the trie has for the path (an empty record when there is
  none, a text when the owner is down), exactly once, whatever the cache holds, and changes
  nothing else.
\<close>

lemma handle_command_info_wp:
  assumes "coherent s" and "path_ok p"
  shows "wp (\<lambda>s'. replies (Conn fd) s' = replies (Conn fd) s @ [info_answer s p] \<and> coherent s' \<and>
              file_trie s' = file_trie s \<and> storage_servers s' = storage_servers s \<and>
              write_clients s' = write_clients s) (handle_command_info E fd p s)"
  using assms
proof (cases rule: lookup_cases)
  case (none s')
  then show ?thesis
    using same_but_cacheD [of s s'] same_but_cache_eqs [of s s']
    by (simp add: handle_command_info_def info_answer_def coherent_def)
next
  case (some q fi s')
  then show ?thesis
    using same_but_cacheD [of s s'] same_but_cache_eqs [of s s']
    by (simp add: handle_command_info_def info_answer_def coherent_def)
qed

lemma handle_command_info_witness:
  "wp (\<lambda>s'. replies (Conn 4) s' = [InfoMsg leaf_info]) (handle_command_info sample_env 4 ''d/f.c'' sample_nm)"
proof -
  have "info_answer sample_nm ''d/f.c'' = InfoMsg leaf_info" by (simp add: info_answer_def)
  then show ?thesis
    using handle_command_info_wp [OF coherent_sample, of "''d/f.c''" 4 sample_env] by (auto elim!: wp_mono)
qed

section \<open>STREAM\<close>

text \<open>
  C40: STREAM of a path the trie does not have dereferences the NULL record, for the log: the
  naming server crashes.
\<close>

lemma handle_command_stream_missing:
  assumes "coherent s" and "path_ok p" and "info_at (file_trie s) p = None"
  shows "handle_command_stream E fd p s = Inl NullDeref"
  using assms(1,2)
proof (cases rule: lookup_cases)
  case (none s')
  then show ?thesis by (simp add: handle_command_stream_def)
next
  case (some q fi s')
  with assms(3) show ?thesis by simp
qed

lemma handle_command_stream_missing_witness:
  "handle_command_stream sample_env 4 ''nope'' sample_nm = Inl NullDeref"
  by (rule handle_command_stream_missing) simp_all

text \<open>
  STREAM of a known path answers with its record when the owner is active and with a record
  that says so otherwise.
\<close>

lemma handle_command_stream_wp:
  assumes "coherent s" and "path_ok p" and "info_at (file_trie s) p = Some fi"
  shows "wp (\<lambda>s'. replies (Conn fd) s' = replies (Conn fd) s @
                [if check_active_server (fi_ip fi) (fi_port_client fi) s = 0
                 then InfoMsg (empty_file_info\<lparr>fi_file_path := ''SERVER NOT ACTIVE''\<rparr>)
                 else InfoMsg fi] \<and> coherent s' \<and>
              file_trie s' = file_trie s \<and> storage_servers s' = storage_servers s)
           (handle_command_stream E fd p s)"
  using assms(1,2)
proof (cases rule: lookup_cases)
  case (none s')
  with assms(3) show ?thesis by simp
next
  case (some q fi' s')
  then show ?thesis
    using same_but_cacheD [of s s'] same_but_cache_eqs [of s s'] assms(3)
    by (simp add: handle_command_stream_def coherent_def)
qed

lemma handle_command_stream_witness:
  "wp (\<lambda>s'. replies (Conn 4) s' = [InfoMsg leaf_info]) (handle_command_stream sample_env 4 ''d/f.c'' sample_nm)"
proof -
  have "info_at (file_trie sample_nm) ''d/f.c'' = Some leaf_info" by simp
  from handle_command_stream_wp [OF coherent_sample _ this, of 4 sample_env] show ?thesis
    by (auto elim!: wp_mono)
qed

section \<open>READ\<close>

text \<open>The home directory of a server, and tables whose home directories are usable.\<close>

definition home :: "StorageServerInfo \<Rightarrow> string option" where
  "home x = fst (strtok_first (CHR '','') (ss_accessible_paths x))"

definition homes_fit :: "nat \<Rightarrow> nm \<Rightarrow> bool" where
  "homes_fit n s \<longleftrightarrow> list_all (\<lambda>x. case home x of None \<Rightarrow> False | Some h \<Rightarrow> length h + 1 + n < MAX_FILE_PATH_SIZE)
     (storage_servers s)"

text \<open>What \<open>strtok\<close> changes in a row: the tail of its path list.\<close>

definition same_server :: "StorageServerInfo \<Rightarrow> StorageServerInfo \<Rightarrow> bool" where
  "same_server x y \<longleftrightarrow> y = x\<lparr>ss_accessible_paths := ss_accessible_paths y\<rparr> \<and> home y = home x"

lemma same_server_refl [simp]: "same_server x x"
  by (simp add: same_server_def)

lemma home_cut: "strtok_first (CHR '','') (ss_accessible_paths x) = (Some t, buf) \<Longrightarrow>
    same_server x (x\<lparr>ss_accessible_paths := buf\<rparr>) \<and> home x = Some t"
  by (simp add: same_server_def home_def strtok_first_idem)

lemma getaccesspath_from_same:
  "getaccesspath_from ip port xs = (r, ys) \<Longrightarrow> list_all2 same_server xs ys"
proof (induction xs arbitrary: r ys)
  case Nil
  then show ?case by simp
next
  case (Cons x xs)
  then show ?case
    by (auto split: if_splits prod.splits option.splits simp: list_all2_refl dest: home_cut)
qed

lemma getaccesspath_from_home:
  assumes "find_index (\<lambda>x. ss_ip x = ip \<and> ss_port_client x = port) xs = Some i"
    and "home (xs ! i) = Some h"
  shows "fst (getaccesspath_from ip port xs) = Some h"
  using assms
proof (induction xs arbitrary: i)
  case Nil
  then show ?case by simp
next
  case (Cons x xs)
  show ?case
  proof (cases "ss_ip x = ip \<and> ss_port_client x = port")
    case True
    with Cons.prems have "home x = Some h" by simp
    with True show ?thesis by (auto simp: home_def split: prod.splits option.splits)
  next
    case False
    with Cons.prems(1) obtain j where
      j: "find_index (\<lambda>x. ss_ip x = ip \<and> ss_port_client x = port) xs = Some j" and "i = Suc j"
      by auto
    with Cons.prems(2) have "home (xs ! j) = Some h" by simp
    with Cons.IH [OF j] False show ?thesis by (auto split: prod.splits)
  qed
qed

text \<open>A table that differs in the path lists only answers all address lookups alike.\<close>

lemma find_index_cong2:
  "list_all2 (\<lambda>x y. P x = Q y) xs ys \<Longrightarrow> find_index P xs = find_index Q ys"
  by (induction rule: list_all2_induct) auto

lemma same_table_index:
  assumes "list_all2 same_server (storage_servers s) (storage_servers s')"
  shows "server_index ip port s' = server_index ip port s"
proof -
  have "list_all2 (\<lambda>x y. (ss_ip x = ip \<and> ss_port_client x = port) = (ss_ip y = ip \<and> ss_port_client y = port))
      (storage_servers s) (storage_servers s')"
    by (rule list_all2_mono [OF assms]) (metis (no_types) same_server_def StorageServerInfo.surjective
        StorageServerInfo.select_convs(1,3) StorageServerInfo.update_convs(4))
  then show ?thesis by (simp add: server_index_def find_index_cong2)
qed

lemma same_table_active:
  assumes "list_all2 same_server (storage_servers s) (storage_servers s')"
  shows "check_active_server ip port s' = check_active_server ip port s"
proof (cases "server_index ip port s")
  case None
  then show ?thesis using same_table_index [OF assms] by (simp add: check_active_server_def)
next
  case (Some i)
  then have "i < server_count s" by (simp add: server_index_Some)
  with assms have "same_server (storage_servers s ! i) (storage_servers s' ! i)"
    by (simp add: list_all2_nthD)
  then have "ss_is_active (storage_servers s' ! i) = ss_is_active (storage_servers s ! i)"
    by (metis same_server_def StorageServerInfo.surjective
        StorageServerInfo.select_convs(6) StorageServerInfo.update_convs(4))
  with Some show ?thesis using same_table_index [OF assms] by (simp add: check_active_server_def)
qed

lemma check_active_index: "check_active_server ip port s \<noteq> 0 \<Longrightarrow> \<exists>i. server_index ip port s = Some i"
  by (auto simp: check_active_server_def split: option.splits)

lemma redirect_wp:
  assumes act: "check_active_server ip port s \<noteq> 0" and fit: "homes_fit (length arg1) s"
  shows "wp (\<lambda>(r, s'). \<exists>i h. server_index ip port s = Some i \<and> home (storage_servers s ! i) = Some h \<and>
            r = \<lparr>fi_ip = ip, fi_port_client = port, fi_file_path = h @ ''/'' @ arg1\<rparr> \<and>
            list_all2 same_server (storage_servers s) (storage_servers s') \<and>
            nm_cache s' = nm_cache s \<and> file_trie s' = file_trie s \<and> trace s' = trace s \<and>
            write_clients s' = write_clients s)
           (redirect ip port arg1 s)"
proof -
  from check_active_index [OF act] obtain i where i: "server_index ip port s = Some i" by blast
  then have "i < server_count s" by (simp add: server_index_Some)
  with fit obtain h where h: "home (storage_servers s ! i) = Some h"
    and len: "length h + 1 + length arg1 < 256"
    by (force simp: homes_fit_def list_all_length split: option.splits)
  obtain r ys where get: "getaccesspath_from ip port (storage_servers s) = (r, ys)"
    by (cases "getaccesspath_from ip port (storage_servers s)")
  have "r = Some h"
    using getaccesspath_from_home [of ip port "storage_servers s" i h] i h get
    by (simp add: server_index_def)
  with get i h len getaccesspath_from_same [OF get] show ?thesis
    by (simp add: redirect_def getaccesspath_def)
qed

text \<open>
  The answer to READ as the owner and its backups have it: the owner when it is active or
  unknown, else the first active backup, else nothing.
\<close>

definition read_answer :: "nm \<Rightarrow> string \<Rightarrow> FILEINFO" where
  "read_answer s p =
     (case info_at (file_trie s) p of
        None \<Rightarrow> empty_file_info
      | Some fi \<Rightarrow>
          (case server_index (fi_ip fi) (fi_port_client fi) s of
             None \<Rightarrow> fi
           | Some i \<Rightarrow>
               let x = storage_servers s ! i;
                   at = (\<lambda>ip port. case server_index ip port s of
                           None \<Rightarrow> empty_file_info
                         | Some j \<Rightarrow> \<lparr>fi_ip = ip, fi_port_client = port,
                              fi_file_path = the (home (storage_servers s ! j)) @ ''/'' @ p\<rparr>)
               in if ss_is_active x \<noteq> 0 then fi
                  else if check_active_server (ss_backup_ip1 x) (ss_backup_port1 x) s \<noteq> 0
                  then at (ss_backup_ip1 x) (ss_backup_port1 x)
                  else if check_active_server (ss_backup_ip2 x) (ss_backup_port2 x) s \<noteq> 0
                  then at (ss_backup_ip2 x) (ss_backup_port2 x)
                  else empty_file_info))"

lemma read_target_wp:
  assumes fit: "homes_fit (length p) s" and fi: "info_at (file_trie s) p = Some fi"
  shows "wp (\<lambda>(t, s'). read_answer s p = (case t of None \<Rightarrow> empty_file_info | Some r \<Rightarrow> r) \<and>
            list_all2 same_server (storage_servers s) (storage_servers s') \<and>
            nm_cache s' = nm_cache s \<and> file_trie s' = file_trie s \<and> trace s' = trace s \<and>
            write_clients s' = write_clients s)
           (read_target fi p s)"
proof (cases "server_index (fi_ip fi) (fi_port_client fi) s")
  case None
  with fi show ?thesis by (simp add: read_target_def read_answer_def list_all2_refl)
next
  case (Some i)
  let ?x = "storage_servers s ! i"
  let ?a1 = "check_active_server (ss_backup_ip1 ?x) (ss_backup_port1 ?x) s"
  let ?a2 = "check_active_server (ss_backup_ip2 ?x) (ss_backup_port2 ?x) s"
  consider "ss_is_active ?x \<noteq> 0" | "ss_is_active ?x = 0" "?a1 \<noteq> 0"
    | "ss_is_active ?x = 0" "?a1 = 0" "?a2 \<noteq> 0" | "ss_is_active ?x = 0" "?a1 = 0" "?a2 = 0"
    by blast
  then show ?thesis
  proof cases
    case 2
    with redirect_wp [OF 2(2) fit] Some fi show ?thesis
      by (auto simp: wp_iff read_target_def read_answer_def Let_def)
  next
    case 3
    with redirect_wp [OF 3(3) fit] Some fi show ?thesis
      by (auto simp: wp_iff read_target_def read_answer_def Let_def)
  qed (use Some fi in \<open>simp_all add: read_target_def read_answer_def list_all2_refl\<close>)
qed

lemma read_answer_cong:
  assumes "file_trie s' = file_trie s" and "storage_servers s' = storage_servers s"
  shows "read_answer s' p = read_answer s p"
  unfolding read_answer_def check_active_server_def server_index_def assms ..

lemma handle_command_read_answers:
  assumes coh: "coherent s" and ok: "path_ok p" and fit: "homes_fit (length p) s"
    and paths: "\<And>fi. info_at (file_trie s) p = Some fi \<Longrightarrow> info_ok fi"
  shows "wp (\<lambda>s'. replies (Conn fd) s' = replies (Conn fd) s @ [InfoMsg (read_answer s p)] \<and>
              coherent s' \<and> file_trie s' = file_trie s \<and>
              list_all2 same_server (storage_servers s) (storage_servers s'))
           (handle_command_read E fd p s)"
  using coh ok
proof (cases rule: lookup_cases)
  case (none s')
  then show ?thesis
    using same_but_cacheD [of s s'] same_but_cache_eqs [of s s']
    by (simp add: handle_command_read_def read_answer_def coherent_def list_all2_refl)
next
  case (some q fi s')
  note eqs = same_but_cacheD [OF some(3)] same_but_cache_eqs [OF some(3)]
  have fit': "homes_fit (length p) s'" and fi': "info_at (file_trie s') p = Some fi"
    and len: "length (fi_file_path fi) < 256"
    using fit some(4) paths [OF some(4)] eqs by (simp_all add: homes_fit_def info_ok_def)
  have answer: "read_answer s' p = read_answer s p"
    by (rule read_answer_cong) (simp_all add: eqs)
  from read_target_wp [OF fit' fi'] obtain t s2 where
    target: "read_target fi p s' = Inr (t, s2)"
      "read_answer s' p = (case t of None \<Rightarrow> empty_file_info | Some r \<Rightarrow> r)"
    and same: "list_all2 same_server (storage_servers s') (storage_servers s2)"
    and s2: "nm_cache s2 = nm_cache s'" "file_trie s2 = file_trie s'" "trace s2 = trace s'"
    unfolding wp_iff by auto
  have "replies (Conn fd) s2 = replies (Conn fd) s" by (simp add: replies_def s2 eqs)
  then show ?thesis
    using some(1,2,5) len target same s2 eqs answer
    by (cases t) (simp_all add: handle_command_read_def coherent_def)
qed

text \<open>
  C9: READ answers exactly once, with the location of the file: on its owner when the owner is
  active or unknown, otherwise below the home directory of the first active backup, otherwise
  with the empty record.
\<close>

lemma handle_command_read_wp:
  assumes coh: "coherent s" and ok: "path_ok p" and fit: "homes_fit (length p) s"
    and paths: "\<And>fi. info_at (file_trie s) p = Some fi \<Longrightarrow> info_ok fi"
  shows "wp (\<lambda>s'. replies (Conn fd) s' = replies (Conn fd) s @ [InfoMsg (read_answer s p)] \<and>
              coherent s' \<and> file_trie s' = file_trie s \<and>
              list_all2 same_server (storage_servers s) (storage_servers s'))
           (handle_command_read E fd p s)"
  by (rule handle_command_read_answers [OF assms])

lemma handle_command_read_witness:
  "wp (\<lambda>s'. replies (Conn 4) s' =
         [InfoMsg \<lparr>fi_ip = ''10.0.0.2'', fi_port_client = 6002, fi_file_path = ''e/d/f.c''\<rparr>])
     (handle_command_read sample_env 4 ''d/f.c'' failover_nm)"
proof -
  have answer: "read_answer failover_nm ''d/f.c'' =
      \<lparr>fi_ip = ''10.0.0.2'', fi_port_client = 6002, fi_file_path = ''e/d/f.c''\<rparr>"
    by (simp add: read_answer_def server_index_def check_active_server_def owner_row_def spare_row_def
        home_def strtok_first_def Let_def)
  have "homes_fit (length ''d/f.c'') failover_nm"
    by (simp add: homes_fit_def home_def owner_row_def spare_row_def strtok_first_def Let_def)
  from handle_command_read_wp [OF coherent_failover _ this, of 4 sample_env] show ?thesis
    by (auto simp: answer info_ok_def elim!: wp_mono)
qed

end
