(* ===== verification/NM_Write.thy ===== *)
theory NM_Write
  imports NM_Read
begin

text \<open>
  Asynchronous writes in the naming server: \<open>handle_command_write\<close> registers the client
  in \<open>write_clients\<close> and then spins on the table; the thread of a storage server marks
  rows finished (a "write" notification) or failed (the server disconnected).

  The spin loop is modelled by its iteration \<open>write_wait\<close>; other threads run between
  iterations.
\<close>

section \<open>Operations\<close>

text \<open>\<^const>\<open>True\<close> in the result: the handler enters the spin loop.\<close>

definition handle_command_write ::
  "env \<Rightarrow> ClientConnection \<Rightarrow> string \<Rightarrow> string \<Rightarrow> nm \<Rightarrow> (bool \<times> nm) result" where
  "handle_command_write E client_conn command arg1 s =
     (let fd = socket_fd client_conn in
      andthen (find_file_info arg1 s) (\<lambda>(r, s).
       case r of
         None \<Rightarrow>
           Inr (False, insert_log E CLIENT (int fd) NS_PORT WRITE ''File not found'' FILE_NOT_FOUND
                         (send_text (Conn fd) (''File not found'' @ nl) s))
       | Some p \<Rightarrow> andthen (deref s p) (\<lambda>fi.
           let s = insert_log E CLIENT (int fd) (fi_port_client fi) WRITE
                     ''Write request processed'' OK (net_send (Conn fd) (InfoMsg fi) s)
           in if strstr ''--sync'' command = None then
                if write_client_count s < MAX_CONNECTIONS then
                  andthen (strcpy MAX_FILE_PATH_SIZE arg1) (\<lambda>path.
                    Inr (True, s\<lparr>write_clients := write_clients s @
                      [\<lparr>ci_ip = cc_ip client_conn, ci_port = cc_port client_conn,
                        ci_ss_ip = fi_ip fi, ci_ss_port = fi_port_client fi,
                        ci_file_path = path, ci_status = 0, ci_active = 1\<rparr>]\<rparr>))
                else Inr (False, s)
              else Inr (False, s))))"

text \<open>
  One iteration of \<open>while (1)\<close>. It reads row \<open>write_client_count - 1\<close> of the table as it
  is now, not the row this client was given. \<^const>\<open>True\<close> in the result: \<open>break\<close>.
\<close>

definition write_wait :: "nat \<Rightarrow> nm \<Rightarrow> bool \<times> nm" where
  "write_wait fd s =
     (let i = write_client_count s - 1; c = write_clients s ! i in
      if ci_status c = 1 \<or> ci_status c = 2 then
        if ci_status c = 2 then (False, send_text (Conn fd) (''Write failed'' @ nl) s)
        else (True, (send_text (Conn fd) (''Write completed'' @ nl) s)
                      \<lparr>write_clients := (write_clients s)[i := c\<lparr>ci_active := 0\<rparr>]\<rparr>)
      else (False, s))"

text \<open>
  A storage server reports a finished write: the first active row with this path gets
  status 1 (\<open>handle_storage_server\<close>, the "write" branch).
\<close>

definition notify_write :: "string \<Rightarrow> nm \<Rightarrow> nm" where
  "notify_write arg1 s =
     (case find_index (\<lambda>c. ci_file_path c = arg1 \<and> ci_active c \<noteq> 0) (write_clients s) of
        None \<Rightarrow> s
      | Some i \<Rightarrow> s\<lparr>write_clients := (write_clients s)[i := (write_clients s ! i)\<lparr>ci_status := 1\<rparr>]\<rparr>)"

text \<open>A storage server disconnected: every active write on it gets status 2.\<close>

definition fail_writes :: "string \<Rightarrow> int \<Rightarrow> nm \<Rightarrow> nm" where
  "fail_writes ip port s =
     s\<lparr>write_clients := map (\<lambda>c.
         if ci_active c \<noteq> 0 \<and> ci_ss_ip c = ip \<and> ci_ss_port c = port
         then c\<lparr>ci_status := 2\<rparr> else c) (write_clients s)\<rparr>"

section \<open>Registration of a write\<close>

text \<open>
  A write to an unknown path is answered with a text and registers nothing.
\<close>

lemma handle_command_write_missing:
  assumes "coherent s" and "path_ok p" and "info_at (file_trie s) p = None"
  shows "wp (\<lambda>(w, s'). \<not> w \<and> write_clients s' = write_clients s \<and> coherent s' \<and>
            replies (Conn (socket_fd cc)) s' =
              replies (Conn (socket_fd cc)) s @ [Text (''File not found'' @ nl)])
          (handle_command_write E cc command p s)"
  using assms(1,2)
proof (cases rule: lookup_cases)
  case (none s')
  then show ?thesis
    using same_but_cacheD [of s s'] same_but_cache_eqs [of s s']
    by (simp add: handle_command_write_def Let_def coherent_def)
next
  case (some q fi s')
  with assms(3) show ?thesis by simp
qed

lemma handle_command_write_missing_witness:
  "wp (\<lambda>(w, s'). \<not> w \<and> replies (Conn 4) s' = [Text (''File not found'' @ nl)])
     (handle_command_write sample_env sample_client ''write nope'' ''nope'' sample_nm)"
  using handle_command_write_missing [OF coherent_sample, of "''nope''" sample_client sample_env "''write nope''"]
  by (auto simp: sample_client_def elim!: wp_mono)

text \<open>
  C33: A write to a known path is answered with its record. An asynchronous one (no --sync in
  the command) waits and gets a row in the table of pending writes, as long as that has room.
\<close>

lemma handle_command_write_wp:
  fixes command :: string and cc :: ClientConnection
  assumes "coherent s" and ok: "path_ok p" and fi: "info_at (file_trie s) p = Some fi"
  defines "async \<equiv> \<not> sublist ''--sync'' command \<and> write_client_count s < MAX_CONNECTIONS"
  shows "wp (\<lambda>(w, s'). w = async \<and> coherent s' \<and>
            replies (Conn (socket_fd cc)) s' = replies (Conn (socket_fd cc)) s @ [InfoMsg fi] \<and>
            write_clients s' = write_clients s @
              (if async then [\<lparr>ci_ip = cc_ip cc, ci_port = cc_port cc, ci_ss_ip = fi_ip fi,
                 ci_ss_port = fi_port_client fi, ci_file_path = p, ci_status = 0, ci_active = 1\<rparr>]
               else []))
          (handle_command_write E cc command p s)"
  using assms(1,2)
proof (cases rule: lookup_cases)
  case (none s')
  with fi show ?thesis by simp
next
  case (some q fi' s')
  then show ?thesis
    using same_but_cacheD [of s s'] same_but_cache_eqs [of s s'] fi ok
    by (simp add: handle_command_write_def Let_def async_def strstr_None path_ok_def coherent_def)
qed

lemma handle_command_write_witness:
  "wp (\<lambda>(w, s'). replies (Conn 4) s' = [InfoMsg leaf_info])
     (handle_command_write sample_env sample_client ''write d/f.c'' ''d/f.c'' sample_nm)"
proof -
  have "info_at (file_trie sample_nm) ''d/f.c'' = Some leaf_info" by simp
  from handle_command_write_wp [OF coherent_sample _ this, where E = sample_env and cc = sample_client
      and command = "''write d/f.c''"]
  show ?thesis by (auto simp: sample_client_def elim!: wp_mono)
qed

section \<open>The wait\<close>

text \<open>
  A client that waits alone, or last, is answered once its write is reported: the last row
  then has status 1.
\<close>

lemma write_wait_last:
  assumes "write_clients s = cs @ [c]" and "ci_status c = 1"
  shows "fst (write_wait fd s)"
    and "replies (Conn fd) (snd (write_wait fd s)) =
           replies (Conn fd) s @ [Text (''Write completed'' @ nl)]"
    and "write_clients (snd (write_wait fd s)) = cs @ [c\<lparr>ci_active := 0\<rparr>]"
  using assms by (simp_all add: write_wait_def Let_def nth_append)

lemma notify_last:
  assumes "write_clients s = cs @ [c]" and "ci_file_path c = p" and "ci_active c \<noteq> 0"
    and "\<forall>d \<in> set cs. ci_file_path d \<noteq> p \<or> ci_active d = 0"
  shows "write_clients (notify_write p s) = cs @ [c\<lparr>ci_status := 1\<rparr>]"
proof -
  have "find_index (\<lambda>c. ci_file_path c = p \<and> ci_active c \<noteq> 0) (cs @ [c]) = Some (length cs)"
    using assms by (force simp: find_index_Some nth_append dest: nth_mem)
  with assms(1) show ?thesis by (simp add: notify_write_def)
qed



text \<open>
  A client whose row is not the last one is not answered when its own write is reported:
  the iteration looks at somebody else's row.
\<close>

text \<open>
  C35: A client whose write was reported, but whose row is not the last one of the table, goes on
  waiting: the loop looks at the last row, which belongs to somebody else.
\<close>

lemma write_wait_other:
  assumes "write_clients s = cs @ [c]" and "ci_status c = 0"
    and "ci_file_path c \<noteq> p"
  shows "write_wait fd (notify_write p s) = (False, notify_write p s)"
proof (cases "find_index (\<lambda>c. ci_file_path c = p \<and> ci_active c \<noteq> 0) (write_clients s)")
  case None
  with assms show ?thesis by (simp add: notify_write_def write_wait_def Let_def)
next
  case (Some i)
  with assms have "i < length cs"
    by (auto simp: find_index_Some nth_append less_Suc_eq split: if_splits)
  with Some assms show ?thesis
    by (simp add: notify_write_def write_wait_def Let_def nth_append list_update_append1)
qed

lemma write_wait_other_witness:
  "write_wait 4 (notify_write ''d/f.c'' (sample_nm\<lparr>write_clients := [pending ''d/f.c'' 0, pending ''d'' 0]\<rparr>)) =
     (False, notify_write ''d/f.c'' (sample_nm\<lparr>write_clients := [pending ''d/f.c'' 0, pending ''d'' 0]\<rparr>))"
  by (rule write_wait_other [of _ "[pending ''d/f.c'' 0]" "pending ''d'' 0"]) (simp_all add: pending_def)

text \<open>A failed write: every iteration sends the failure again, and none leaves the loop.\<close>

lemma write_wait_failed:
  assumes "write_clients s = cs @ [c]" and "ci_status c = 2"
  shows "write_wait fd s = (False, send_text (Conn fd) (''Write failed'' @ nl) s)"
  using assms by (simp add: write_wait_def Let_def)

text \<open>
  When the storage server of the last pending write is lost, its client is sent the failure
  again in every round of the loop, without end.
\<close>

lemma write_wait_failed_repeats:
  fixes fd :: nat
  assumes "write_clients s = cs @ [c]" and "ci_status c = 2"
  defines "step \<equiv> \<lambda>s. snd (write_wait fd s)"
  shows "\<not> fst (write_wait fd ((step ^^ n) s)) \<and> write_clients ((step ^^ n) s) = cs @ [c] \<and>
     replies (Conn fd) ((step ^^ n) s) =
       replies (Conn fd) s @ replicate n (Text (''Write failed'' @ nl))"
proof (induction n)
  case 0
  then show ?case using assms write_wait_failed [OF assms(1,2)] by simp
next
  case (Suc n)
  then have w: "write_clients ((step ^^ n) s) = cs @ [c]" by simp
  have eq: "(step ^^ Suc n) s = send_text (Conn fd) (''Write failed'' @ nl) ((step ^^ n) s)"
    using write_wait_failed [OF w assms(2)] by (simp add: step_def)
  then have w': "write_clients ((step ^^ Suc n) s) = cs @ [c]" using w by simp
  from write_wait_failed [OF w' assms(2)] w' eq Suc show ?case
    by (simp add: replicate_append_same)
qed

lemma write_wait_failed_repeats_witness:
  "replies (Conn 4) (((\<lambda>s. snd (write_wait 4 s)) ^^ 3) (sample_nm\<lparr>write_clients := [pending ''d'' 2]\<rparr>)) =
     replicate 3 (Text (''Write failed'' @ nl))"
  using write_wait_failed_repeats [of "sample_nm\<lparr>write_clients := [pending ''d'' 2]\<rparr>" "[]" "pending ''d'' 2" 4 3]
  by (simp add: pending_def)

section \<open>The table of pending writes\<close>

definition writes_bounded :: "nm \<Rightarrow> bool" where
  "writes_bounded s \<longleftrightarrow> write_client_count s \<le> MAX_CONNECTIONS"

lemma writes_bounded_write:
  "writes_bounded s \<Longrightarrow> wlp (\<lambda>(w, s'). writes_bounded s' \<and> write_client_count s \<le> write_client_count s')
     (handle_command_write E cc command p s)"
  using find_file_info_frame [of s p]
  by (auto simp: wlp_iff writes_bounded_def handle_command_write_def Let_def andthen_eq_Inr
      dest!: same_but_cacheD(3) split: option.splits if_splits)

lemma writes_bounded_wait: "writes_bounded s \<Longrightarrow> writes_bounded (snd (write_wait fd s))"
  by (simp add: writes_bounded_def write_wait_def Let_def)

lemma writes_bounded_notify: "writes_bounded s \<Longrightarrow> writes_bounded (notify_write p s)"
  by (simp add: writes_bounded_def notify_write_def split: option.split)

lemma writes_bounded_fail: "writes_bounded s \<Longrightarrow> writes_bounded (fail_writes ip port s)"
  by (simp add: writes_bounded_def fail_writes_def)

end
