(* ===== verification/NM_Create.thy ===== *)
theory NM_Create
  imports NM_Write
begin

text \<open>
  \<open>handle_command_create\<close> of \<open>naming_server.c\<close>: the request is forwarded to the storage
  server that owns the directory, the new path enters the trie when the server reports
  success, and the request is repeated on (or queued for) the two backups of the server.
\<close>

section \<open>Shared steps of the forwarding handlers\<close>

text \<open>The loop that copies the addresses out of the owner's row; -1 when there is none.\<close>

definition owner_ports :: "FILEINFO \<Rightarrow> nm \<Rightarrow> int \<times> (string \<times> int) \<times> (string \<times> int)" where
  "owner_ports fi s =
     (case server_index (fi_ip fi) (fi_port_client fi) s of
        None \<Rightarrow> (-1, ('''', -1), ('''', -1))
      | Some i \<Rightarrow> let x = storage_servers s ! i in
          (ss_port_nm x, (ss_backup_ip1 x, ss_backup_port1 x), (ss_backup_ip2 x, ss_backup_port2 x)))"

definition has_backup :: "string \<Rightarrow> int \<Rightarrow> bool" where
  "has_backup ip port \<longleftrightarrow> port \<noteq> 0 \<and> port \<noteq> -1 \<and> ip \<noteq> ''''"

text \<open>One word of \<open>sscanf("%s\<dots>")\<close> into an array of \<open>n\<close> bytes that holds \<open>old\<close>.\<close>

definition scan_word :: "nat \<Rightarrow> string list \<Rightarrow> nat \<Rightarrow> string \<Rightarrow> string result" where
  "scan_word n ws i old = (if i < length ws then strcpy n (ws ! i) else Inr old)"

text \<open>
  \<open>strcpy(arg1, strtok(\<dots>))\<close> for the row of the backup: \<open>arg1\<close> becomes its home directory,
  and keeps its value when no row matches.
\<close>

definition backup_home :: "string \<Rightarrow> int \<Rightarrow> string \<Rightarrow> nm \<Rightarrow> (string \<times> nm) result" where
  "backup_home ip port arg1 s =
     (case server_index ip port s of None \<Rightarrow> Inr (arg1, s) | Some i \<Rightarrow> cut_paths i s)"

section \<open>The handler\<close>

text \<open>
  The exchange of a backup block with an active backup. The flag tells whether the handler
  goes on behind the block; without it the block executed its \<open>return\<close>.
\<close>

definition create_exchange ::
  "env \<Rightarrow> nat \<Rightarrow> string \<Rightarrow> int \<Rightarrow> string \<Rightarrow> nm \<Rightarrow> (bool \<times> nm) result" where
  "create_exchange E fd ip port command2 s =
     (case dial E ip port s of
        (No_socket, s) \<Rightarrow>
          Inr (False, insert_log E CLIENT (int fd) port CREATE ''Socket creation failed'' 500 s)
      | (Bad_address, s) \<Rightarrow>
          Inr (False, insert_log E CLIENT (int fd) port CREATE ''Invalid address'' 400 s)
      | (Refused, s) \<Rightarrow>
          Inr (False, insert_log E CLIENT (int fd) port CREATE ''Connection failed'' 500 s)
      | (Dialled k, s) \<Rightarrow>
          (case net_recv E (Peer k) BUFFER_SIZE (send_text (Peer k) command2 s) of
             (None, s) \<Rightarrow>
               Inr (False, net_close (Peer k)
                 (insert_log E CLIENT (int fd) port CREATE ''Failed to receive response'' 500 s))
           | (Some bs, s) \<Rightarrow> andthen (terminate BUFFER_SIZE bs) (\<lambda>response.
               let s = (if strstr ''success'' response \<noteq> None
                        then insert_log E CLIENT (int fd) port CREATE ''File created successfully'' OK s
                        else s)
               in Inr (True, net_close (Peer k) s))))"

text \<open>
  One of the two backup blocks. The result carries \<open>arg1\<close> for the code behind the block,
  or nothing when the block executed the \<open>return\<close> of the handler.
\<close>

definition create_backup ::
  "env \<Rightarrow> nat \<Rightarrow> string \<Rightarrow> string \<Rightarrow> int \<Rightarrow> string \<Rightarrow> nm \<Rightarrow> (string option \<times> nm) result" where
  "create_backup E fd command ip port arg1 s =
     (if \<not> has_backup ip port then Inr (Some arg1, s)
      else
        let active = check_active_server ip port s; ws = sscanf_words command in
        andthen (backup_home ip port arg1 s) (\<lambda>(arg1, s).
        andthen (scan_word 100 ws 0 (e_junk E ''name'')) (\<lambda>name.
        andthen (scan_word 1000 ws 1 (e_junk E ''dir_path'')) (\<lambda>dir_path.
        andthen (scan_word 100 ws 2 (e_junk E ''file_name'')) (\<lambda>file_name.
        let command2 = snprintf 5000 (name @ '' '' @ arg1 @ ''/'' @ dir_path @ '' '' @ file_name) in
        if active = 0 then
          andthen (addcommand ip port command2 s) (\<lambda>s. Inr (Some arg1, s))
        else
          andthen (create_exchange E fd ip port command2 s) (\<lambda>(go_on, s).
            Inr (if go_on then Some arg1 else None, s)))))))"

text \<open>
  The exchange with the owner and everything behind it. \<open>dir\<close> is the record
  \<open>dir_info\<close> points to, which nothing overwrites meanwhile.
\<close>

definition create_forward ::
  "env \<Rightarrow> nat \<Rightarrow> string \<Rightarrow> string \<Rightarrow> string \<Rightarrow> FILEINFO \<Rightarrow> int \<Rightarrow> string \<times> int \<Rightarrow> string \<times> int \<Rightarrow> nm \<Rightarrow> nm result" where
  "create_forward E fd command arg1 full_path dir nm_port b1 b2 s =
     (case dial E (fi_ip dir) nm_port s of
        (No_socket, s) \<Rightarrow>
          Inr (insert_log E CLIENT (int fd) nm_port CREATE ''Socket creation failed'' 500 s)
      | (Bad_address, s) \<Rightarrow>
          Inr (insert_log E CLIENT (int fd) nm_port CREATE ''Invalid address'' 400 s)
      | (Refused, s) \<Rightarrow>
          Inr (insert_log E CLIENT (int fd) nm_port CREATE ''Connection failed'' 500 s)
      | (Dialled k, s) \<Rightarrow>
          (case net_recv E (Peer k) BUFFER_SIZE (send_text (Peer k) command s) of
             (None, s) \<Rightarrow>
               Inr (net_close (Peer k)
                 (insert_log E CLIENT (int fd) nm_port CREATE ''Failed to receive response'' 500 s))
           | (Some bs, s) \<Rightarrow> andthen (terminate BUFFER_SIZE bs) (\<lambda>response.
               let s = (if strstr ''success'' response \<noteq> None
                        then (let s = insert_log E CLIENT (int fd) nm_port CREATE ''File created successfully'' OK s
                              in s\<lparr>file_trie := update_file_info_fromdir (file_trie s) dir full_path\<rparr>)
                        else s);
                   s = net_close (Peer k) s
               in andthen (create_backup E fd command (fst b1) (snd b1) arg1 s) (\<lambda>(r1, s).
                  case r1 of
                    None \<Rightarrow> Inr s
                  | Some arg1 \<Rightarrow>
                      andthen (create_backup E fd command (fst b2) (snd b2) arg1 s) (\<lambda>(r2, s).
                      case r2 of
                        None \<Rightarrow> Inr s
                      | Some _ \<Rightarrow> Inr (send_text (Conn fd) bs s))))))"

definition handle_command_create :: "env \<Rightarrow> nat \<Rightarrow> string \<Rightarrow> string \<Rightarrow> string \<Rightarrow> nm \<Rightarrow> nm result" where
  "handle_command_create E fd command arg1 arg2 s =
     andthen (find_directory_info arg1 s) (\<lambda>(dir_info, s).
     let full_path = snprintf MAX_FILE_PATH_SIZE (arg1 @ ''/'' @ arg2) in
     andthen (find_file_info full_path s) (\<lambda>(file_info, s).
       if file_info \<noteq> None then
         Inr (insert_log E CLIENT (int fd) NS_PORT CREATE ''File already exists'' FILE_NOT_FOUND
               (send_text (Conn fd) (''File already exists'' @ nl) s))
       else
         (case dir_info of
            None \<Rightarrow>
              Inr (insert_log E CLIENT (int fd) NS_PORT CREATE ''Directory not found'' FILE_NOT_FOUND
                    (send_text (Conn fd) (''Directory not found'' @ nl) s))
          | Some p \<Rightarrow> andthen (deref s p) (\<lambda>dir.
              let main_active = check_active_server (fi_ip dir) (fi_port_client dir) s in
              (case owner_ports dir s of (nm_port, b1, b2) \<Rightarrow>
                 if nm_port = -1 then
                   Inr (insert_log E CLIENT (int fd) NS_PORT CREATE
                         ''No matching storage server found'' SERVER_NOT_FOUND s)
                 else if main_active = 0 then Inr (send_text (Conn fd) ''SERVER NOT ACTIVE'' s)
                 else create_forward E fd command arg1 full_path dir nm_port b1 b2 s)))))"

section \<open>The pointer to the directory record\<close>

text \<open>
  \<open>dir_info\<close> may point into the cache, and a second lookup follows before it is read. A
  lookup that finds nothing moves no entry, so the pointer still reads the directory.
\<close>

lemma find_file_info_None:
  assumes "coherent s" and "path_ok p" and "find_file_info p s = Inr (None, s')"
  shows "s' = s"
proof -
  from assms(1) have "cache_wf (nm_cache s)" by (simp add: coherent_def)
  from find_in_cache_wp [OF this, of p] assms(3) show ?thesis
    by (auto simp: find_file_info_cached wp_iff split: if_splits option.splits)
qed

lemma create_lookups:
  assumes coh: "coherent s" and "path_ok d" and "path_ok f"
    and new: "info_at (file_trie s) f = None"
  obtains r s' where "find_directory_info d s = Inr (r, s')" and "find_file_info f s' = Inr (None, s')"
    and "coherent s'" and "same_but_cache s s'"
    and "case info_at (file_trie s) d of None \<Rightarrow> r = None
         | Some v \<Rightarrow> \<exists>q. r = Some q \<and> deref s' q = Inr v"
proof -
  have second: "find_file_info f s' = Inr (None, s')" if "coherent s'" "same_but_cache s s'" for s'
    using that(1) assms(3)
  proof (cases rule: lookup_cases)
    case (none s'')
    then show ?thesis using find_file_info_None [OF that(1) assms(3)] by simp
  next
    case (some q fi s'')
    then show ?thesis using new same_but_cacheD [OF that(2)] by simp
  qed
  from coh assms(2) show thesis
  proof (cases rule: lookup_cases)
    case (none s')
    with second show thesis by (intro that) (auto simp: find_directory_info_eq)
  next
    case (some q fi s')
    with second show thesis by (intro that) (auto simp: find_directory_info_eq)
  qed
qed

section \<open>What a backup block changes\<close>

text \<open>
  Talking to backups and queueing for them keeps the paths, the cache, the pending writes
  and the number of servers, and says nothing to any client.
\<close>

definition quiet :: "nm \<Rightarrow> nm \<Rightarrow> bool" where
  "quiet s s' \<longleftrightarrow> file_trie s' = file_trie s \<and> nm_cache s' = nm_cache s \<and>
     write_clients s' = write_clients s \<and> server_count s' = server_count s \<and>
     (\<forall>c. replies (Conn c) s' = replies (Conn c) s)"

lemma quiet_refl [simp]: "quiet s s"
  by (simp add: quiet_def)

lemma quiet_trans [trans]: "quiet s t \<Longrightarrow> quiet t u \<Longrightarrow> quiet s u"
  by (simp add: quiet_def)

lemma quiet_bind:
  assumes "wlp (\<lambda>(_, s'). quiet s s') m" and "\<And>x s'. quiet s s' \<Longrightarrow> wlp Q (f (x, s'))"
  shows "wlp Q (andthen m f)"
  using assms by (auto simp: wlp_iff andthen_eq_Inr)

lemma quiet_bind1:
  assumes "wlp (\<lambda>s'. quiet s s') m" and "\<And>s'. quiet s s' \<Longrightarrow> wlp Q (f s')"
  shows "wlp Q (andthen m f)"
  using assms by (auto simp: wlp_iff andthen_eq_Inr)

lemma quiet_log [simp]: "quiet s (insert_log E ty i p r d st t) \<longleftrightarrow> quiet s t"
  by (simp add: quiet_def)

lemma quiet_send [simp]: "quiet s (send_text (Peer k) p t) \<longleftrightarrow> quiet s t"
  by (simp add: quiet_def)

lemma quiet_close [simp]: "quiet s (net_close c t) \<longleftrightarrow> quiet s t"
  by (simp add: quiet_def)

lemma quiet_dial: "dial E ip port s = (d, s') \<Longrightarrow> quiet s s'"
  by (simp add: quiet_def dial_fields)

lemma quiet_dial_unchecked: "dial_unchecked E ip port s = (d, s') \<Longrightarrow> quiet s s'"
  by (simp add: quiet_def dial_unchecked_fields)

lemma quiet_recv: "net_recv E c n s = (d, s') \<Longrightarrow> quiet s s'"
  by (simp add: quiet_def recv_fields)

lemma quiet_cong_trace:
  assumes "trace s' = trace s" and "file_trie s' = file_trie s" and "nm_cache s' = nm_cache s"
    and "write_clients s' = write_clients s" and "server_count s' = server_count s"
  shows "quiet s s'"
  unfolding quiet_def replies_def assms by blast

lemma quiet_cut_paths: "wlp (\<lambda>(t, s'). quiet s s') (cut_paths i s)"
  by (rule wlp_mono [OF cut_paths_frame]) (clarify, rule quiet_cong_trace)

lemma quiet_backup_home: "wlp (\<lambda>(t, s'). quiet s s') (backup_home ip port arg1 s)"
  using quiet_cut_paths by (auto simp: backup_home_def split: option.split)

lemma quiet_addcommand: "wlp (\<lambda>s'. quiet s s') (addcommand ip port command s)"
  by (rule wlp_mono [OF addcommand_frame]) (intro quiet_cong_trace; blast)

lemma quiet_create_exchange: "wlp (\<lambda>(g, s'). quiet s s') (create_exchange E fd ip port command2 s)"
proof -
  obtain d s1 where d: "dial E ip port s = (d, s1)" by (cases "dial E ip port s")
  then have q1: "quiet s s1" by (rule quiet_dial)
  show ?thesis
  proof (cases d)
    case (Dialled k)
    obtain r s2 where r: "net_recv E (Peer k) BUFFER_SIZE (send_text (Peer k) command2 s1) = (r, s2)"
      by (cases "net_recv E (Peer k) BUFFER_SIZE (send_text (Peer k) command2 s1)")
    have "quiet (send_text (Peer k) command2 s1) s2" using r by (rule quiet_recv)
    then have "quiet s s2" using q1 by (simp add: quiet_def)
    then show ?thesis
      using d Dialled r
      by (cases r) (auto simp: create_exchange_def Let_def intro!: wlp_bind_any)
  qed (use d q1 in \<open>simp_all add: create_exchange_def\<close>)
qed

lemma quiet_create_backup: "wlp (\<lambda>(r, s'). quiet s s') (create_backup E fd command ip port arg1 s)"
proof (cases "has_backup ip port")
  case False
  then show ?thesis by (simp add: create_backup_def)
next
  case True
  have queue: "wlp (\<lambda>(r, s'). quiet s s') (andthen (addcommand ip port c2 s1) (\<lambda>s. Inr (Some a, s)))"
    if "quiet s s1" for c2 a s1
    by (rule quiet_bind1 [OF quiet_addcommand]) (simp add: quiet_trans [OF that])
  have talk: "wlp (\<lambda>(r, s'). quiet s s')
      (andthen (create_exchange E fd ip port c2 s1) (\<lambda>(g, s). Inr (if g then Some a else None, s)))"
    if "quiet s s1" for c2 a s1
    by (rule quiet_bind [OF quiet_create_exchange]) (simp add: quiet_trans [OF that])
  show ?thesis
    unfolding create_backup_def Let_def
    apply (subst if_not_P)
    subgoal using True by simp
    apply (rule quiet_bind [OF quiet_backup_home])
    apply (unfold prod.case)
    apply (intro wlp_bind_any)
    apply (unfold wlp_if)
    by (simp only: queue talk if_True if_False cong: if_cong split: if_split) blast
qed

section \<open>The exchange with the owner\<close>

text \<open>What the owner answers to a forwarded command, if the exchange succeeds.\<close>

definition owner_reply :: "env \<Rightarrow> string \<Rightarrow> int \<Rightarrow> string \<Rightarrow> nm \<Rightarrow> string option" where
  "owner_reply E ip port command s =
     (case dial E ip port s of
        (Dialled k, s) \<Rightarrow> fst (net_recv E (Peer k) BUFFER_SIZE (send_text (Peer k) command s))
      | _ \<Rightarrow> None)"

definition succeeded :: "string option \<Rightarrow> bool" where
  "succeeded r = (case r of None \<Rightarrow> False | Some bs \<Rightarrow> strstr ''success'' (c_str bs) \<noteq> None)"

lemma owner_reply_cong: "trace s' = trace s \<Longrightarrow> owner_reply E ip port command s' = owner_reply E ip port command s"
  by (auto simp: owner_reply_def dial_def net_recv_def emit_def send_text_def net_send_def split: option.splits)

text \<open>
  \<open>relayed fd r s s'\<close>: apart from the path trie and the rows of the table, a handler left
  the memory alone, and the client on \<open>fd\<close> was sent nothing or the answer \<open>r\<close>.
\<close>

definition relayed :: "nat \<Rightarrow> string option \<Rightarrow> nm \<Rightarrow> nm \<Rightarrow> bool" where
  "relayed fd r s s' \<longleftrightarrow>
     write_clients s' = write_clients s \<and> server_count s' = server_count s \<and>
     (\<forall>c. c \<noteq> fd \<longrightarrow> replies (Conn c) s' = replies (Conn c) s) \<and>
     (replies (Conn fd) s' = replies (Conn fd) s \<or>
      (\<exists>bs. r = Some bs \<and> replies (Conn fd) s' = replies (Conn fd) s @ [Text bs]))"

lemma relayed_quiet: "quiet s s' \<Longrightarrow> relayed fd r s s'"
  by (simp add: quiet_def relayed_def)

lemma relayed_answer: "quiet s s' \<Longrightarrow> relayed fd (Some bs) s (send_text (Conn fd) bs s')"
  by (simp add: quiet_def relayed_def)

lemma quiet_peer:
  assumes "quiet s s1" and "net_recv E (Peer k) n (send_text (Peer k) m s1) = (r, s2)"
  shows "quiet s s2"
  using quiet_recv [OF assms(2)] assms(1) by (simp add: quiet_def)

text \<open>The two backup blocks and the answer behind them.\<close>

definition create_tail :: "env \<Rightarrow> nat \<Rightarrow> string \<Rightarrow> string \<Rightarrow> string \<times> int \<Rightarrow> string \<times> int \<Rightarrow> string \<Rightarrow> nm \<Rightarrow> nm result" where
  "create_tail E fd command arg1 b1 b2 bs s =
     andthen (create_backup E fd command (fst b1) (snd b1) arg1 s) (\<lambda>(r1, s).
       case r1 of
         None \<Rightarrow> Inr s
       | Some arg1 \<Rightarrow>
           andthen (create_backup E fd command (fst b2) (snd b2) arg1 s) (\<lambda>(r2, s).
           case r2 of
             None \<Rightarrow> Inr s
           | Some _ \<Rightarrow> Inr (send_text (Conn fd) bs s)))"

lemma create_tail_wlp:
  "wlp (\<lambda>s'. file_trie s' = file_trie s \<and> nm_cache s' = nm_cache s \<and> relayed fd (Some bs) s s')
     (create_tail E fd command arg1 b1 b2 bs s)"
  unfolding create_tail_def
proof (rule quiet_bind [OF quiet_create_backup])
  fix r1 s1 assume q: "quiet s s1"
  have keep: "file_trie s2 = file_trie s \<and> nm_cache s2 = nm_cache s" if "quiet s s2" for s2
    using that by (simp add: quiet_def)
  show "wlp (\<lambda>s'. file_trie s' = file_trie s \<and> nm_cache s' = nm_cache s \<and> relayed fd (Some bs) s s')
      ((\<lambda>(r1, s). case r1 of None \<Rightarrow> Inr s | Some arg1 \<Rightarrow>
         andthen (create_backup E fd command (fst b2) (snd b2) arg1 s) (\<lambda>(r2, s).
         case r2 of None \<Rightarrow> Inr s | Some _ \<Rightarrow> Inr (send_text (Conn fd) bs s))) (r1, s1))"
  proof (cases r1)
    case None
    with q keep [OF q] show ?thesis by (simp add: relayed_quiet)
  next
    case (Some a)
    have "wlp (\<lambda>s'. file_trie s' = file_trie s \<and> nm_cache s' = nm_cache s \<and> relayed fd (Some bs) s s')
      (andthen (create_backup E fd command (fst b2) (snd b2) a s1) (\<lambda>(r2, s).
         case r2 of None \<Rightarrow> Inr s | Some _ \<Rightarrow> Inr (send_text (Conn fd) bs s)))"
    proof (rule quiet_bind [OF quiet_create_backup])
      fix r2 s2 assume "quiet s1 s2"
      with q have q2: "quiet s s2" by (rule quiet_trans)
      with keep [OF q2] show "wlp (\<lambda>s'. file_trie s' = file_trie s \<and> nm_cache s' = nm_cache s \<and> relayed fd (Some bs) s s')
        ((\<lambda>(r2, s). case r2 of None \<Rightarrow> Inr s | Some _ \<Rightarrow> Inr (send_text (Conn fd) bs s)) (r2, s2))"
        by (cases r2) (simp_all add: relayed_quiet relayed_answer)
    qed
    with Some show ?thesis by simp
  qed
qed

lemma create_forward_wlp:
  "wlp (\<lambda>s'. file_trie s' = (if succeeded (owner_reply E (fi_ip dir) nm_port command s)
                            then update_file_info_fromdir (file_trie s) dir full_path
                            else file_trie s) \<and>
            nm_cache s' = nm_cache s \<and>
            relayed fd (owner_reply E (fi_ip dir) nm_port command s) s s')
     (create_forward E fd command arg1 full_path dir nm_port b1 b2 s)"
proof -
  obtain d s1 where d: "dial E (fi_ip dir) nm_port s = (d, s1)" by (cases "dial E (fi_ip dir) nm_port s")
  then have q1: "quiet s s1" by (rule quiet_dial)
  then have keep1: "file_trie s1 = file_trie s" "nm_cache s1 = nm_cache s" by (simp_all add: quiet_def)
  show ?thesis
  proof (cases d)
    case (Dialled k)
    obtain r s2 where r: "net_recv E (Peer k) BUFFER_SIZE (send_text (Peer k) command s1) = (r, s2)"
      by (cases "net_recv E (Peer k) BUFFER_SIZE (send_text (Peer k) command s1)")
    have reply: "owner_reply E (fi_ip dir) nm_port command s = r"
      using d Dialled r by (simp add: owner_reply_def)
    have q2: "quiet s s2" using q1 r by (rule quiet_peer)
    then have keep2: "file_trie s2 = file_trie s" "nm_cache s2 = nm_cache s" by (simp_all add: quiet_def)
    show ?thesis
    proof (cases r)
      case None
      with d Dialled r reply q2 keep2 show ?thesis
        by (simp add: create_forward_def succeeded_def relayed_quiet)
    next
      case (Some bs)
      define t where "t = (if strstr ''success'' (c_str bs) \<noteq> None
          then (insert_log E CLIENT (int fd) nm_port CREATE ''File created successfully'' OK s2)
                 \<lparr>file_trie := update_file_info_fromdir (file_trie s) dir full_path\<rparr> else s2)"
      have "create_forward E fd command arg1 full_path dir nm_port b1 b2 s =
          (if length bs < BUFFER_SIZE
           then create_tail E fd command arg1 b1 b2 bs (net_close (Peer k) t) else Inl Overflow)"
        using d Dialled r Some keep2
        by (auto simp: create_forward_def create_tail_def terminate_def t_def Let_def)
      moreover have "relayed fd (Some bs) s s'" if "relayed fd (Some bs) (net_close (Peer k) t) s'" for s'
        using that q2 by (auto simp: relayed_def quiet_def t_def)
      ultimately show ?thesis
        using wlp_mono [OF create_tail_wlp [of "net_close (Peer k) t" fd bs E command arg1 b1 b2]] reply Some keep2
        by (auto simp: succeeded_def t_def elim!: wlp_mono)
    qed
  qed (use d q1 keep1 in \<open>simp_all add: create_forward_def owner_reply_def succeeded_def relayed_quiet\<close>)
qed

section \<open>The whole request\<close>

text \<open>The port for commands of the server that owns a record; -1 when none matches.\<close>

abbreviation owner_nm_port :: "FILEINFO \<Rightarrow> nm \<Rightarrow> int" where
  "owner_nm_port dir s \<equiv> fst (owner_ports dir s)"

lemma owner_ports_cong: "storage_servers s' = storage_servers s \<Longrightarrow> owner_ports dir s' = owner_ports dir s"
  by (simp add: owner_ports_def server_index_def cong: option.case_cong)

definition entry_below :: "FILEINFO \<Rightarrow> string \<Rightarrow> FILEINFO" where
  "entry_below dir p = \<lparr>fi_ip = strncpy INET_ADDRSTRLEN (fi_ip dir), fi_port_client = fi_port_client dir,
                       fi_file_path = strncpy MAX_FILE_PATH_SIZE p\<rparr>"

text \<open>
  What CREATE makes of the paths: a record below the directory's server when the path is
  new, the directory is known, its server is active, and that server reports success.
\<close>

definition create_paths :: "env \<Rightarrow> string \<Rightarrow> string \<Rightarrow> string \<Rightarrow> nm \<Rightarrow> string \<rightharpoonup> FILEINFO" where
  "create_paths E command d p s =
     (case (info_at (file_trie s) p, info_at (file_trie s) d) of
        (None, Some dir) \<Rightarrow>
          if owner_nm_port dir s \<noteq> -1 \<and> check_active_server (fi_ip dir) (fi_port_client dir) s \<noteq> 0 \<and>
             succeeded (owner_reply E (fi_ip dir) (owner_nm_port dir s) command s)
          then (info_at (file_trie s))(p \<mapsto> entry_below dir p)
          else info_at (file_trie s)
      | _ \<Rightarrow> info_at (file_trie s))"

lemma coherent_put:
  assumes "coherent s" and "info_at (file_trie s) p = None"
    and "file_trie s' = update_file_info_fromdir (file_trie s) dir p" and "nm_cache s' = nm_cache s"
  shows "coherent s'" and "info_at (file_trie s') = (info_at (file_trie s))(p \<mapsto> entry_below dir p)"
proof -
  show at: "info_at (file_trie s') = (info_at (file_trie s))(p \<mapsto> entry_below dir p)"
    by (simp add: assms(3) update_file_info_fromdir_put trie.lookup_update entry_below_def)
  show "coherent s'"
    using assms(1,2) unfolding coherent_def at assms(4) by (auto simp: map_le_def dom_def)
qed

text \<open>An existing path is refused.\<close>

lemma create_existing:
  assumes coh: "coherent s" and d: "path_ok d" and p: "p = snprintf MAX_FILE_PATH_SIZE (d @ ''/'' @ f)"
    and old: "info_at (file_trie s) p = Some old"
  obtains s' where "handle_command_create E fd command d f s =
      Inr (insert_log E CLIENT (int fd) NS_PORT CREATE ''File already exists'' FILE_NOT_FOUND
             (send_text (Conn fd) (''File already exists'' @ nl) s'))"
    and "coherent s'" and "same_but_cache s s'"
proof -
  have p': "snprintf MAX_FILE_PATH_SIZE (d @ CHR ''/'' # f) = p" using p by simp
  from coh d obtain r s1 where s1: "find_directory_info d s = Inr (r, s1)"
    "coherent s1" "same_but_cache s s1"
    by (cases rule: lookup_cases) (auto simp: find_directory_info_eq)
  have "path_ok p" by (simp add: p path_ok_def length_snprintf)
  with s1(2) show ?thesis
  proof (cases rule: lookup_cases)
    case (none s2)
    with old same_but_cacheD(1) [OF s1(3)] show ?thesis by simp
  next
    case (some q fi s2)
    have "same_but_cache s s2"
      using s1(3) some(3) by (cases s; cases s1; cases s2) (simp add: same_but_cache_def)
    moreover have "handle_command_create E fd command d f s =
        Inr (insert_log E CLIENT (int fd) NS_PORT CREATE ''File already exists'' FILE_NOT_FOUND
               (send_text (Conn fd) (''File already exists'' @ nl) s2))"
      by (simp add: handle_command_create_def p' Let_def s1(1) some(1))
    ultimately show ?thesis using some(2) that by blast
  qed
qed

text \<open>A new path: what happens depends on the directory and on its server.\<close>

lemma create_new:
  assumes coh: "coherent s" and d: "path_ok d" and p: "p = snprintf MAX_FILE_PATH_SIZE (d @ ''/'' @ f)"
    and new: "info_at (file_trie s) p = None"
  obtains s' where "handle_command_create E fd command d f s =
      (case info_at (file_trie s) d of
         None \<Rightarrow> Inr (insert_log E CLIENT (int fd) NS_PORT CREATE ''Directory not found'' FILE_NOT_FOUND
                       (send_text (Conn fd) (''Directory not found'' @ nl) s'))
       | Some dir \<Rightarrow>
           (case owner_ports dir s of (nm_port, b1, b2) \<Rightarrow>
              if nm_port = -1 then
                Inr (insert_log E CLIENT (int fd) NS_PORT CREATE
                      ''No matching storage server found'' SERVER_NOT_FOUND s')
              else if check_active_server (fi_ip dir) (fi_port_client dir) s = 0
              then Inr (send_text (Conn fd) ''SERVER NOT ACTIVE'' s')
              else create_forward E fd command d p dir nm_port b1 b2 s'))"
    and "coherent s'" and "same_but_cache s s'"
proof -
  have p': "snprintf MAX_FILE_PATH_SIZE (d @ CHR ''/'' # f) = p" using p by simp
  have "path_ok p" by (simp add: p path_ok_def length_snprintf)
  from create_lookups [OF coh d this new] obtain r s1 where
    s1: "find_directory_info d s = Inr (r, s1)" "find_file_info p s1 = Inr (None, s1)"
      "coherent s1" "same_but_cache s s1"
    and r: "case info_at (file_trie s) d of None \<Rightarrow> r = None
            | Some v \<Rightarrow> \<exists>q. r = Some q \<and> deref s1 q = Inr v" by blast
  note keep = same_but_cacheD [OF s1(4)] same_but_cache_eqs [OF s1(4)]
  have "handle_command_create E fd command d f s =
      (case info_at (file_trie s) d of
         None \<Rightarrow> Inr (insert_log E CLIENT (int fd) NS_PORT CREATE ''Directory not found'' FILE_NOT_FOUND
                       (send_text (Conn fd) (''Directory not found'' @ nl) s1))
       | Some dir \<Rightarrow>
           (case owner_ports dir s of (nm_port, b1, b2) \<Rightarrow>
              if nm_port = -1 then
                Inr (insert_log E CLIENT (int fd) NS_PORT CREATE
                      ''No matching storage server found'' SERVER_NOT_FOUND s1)
              else if check_active_server (fi_ip dir) (fi_port_client dir) s = 0
              then Inr (send_text (Conn fd) ''SERVER NOT ACTIVE'' s1)
              else create_forward E fd command d p dir nm_port b1 b2 s1))"
  proof (cases "info_at (file_trie s) d")
    case None
    with r have "r = None" by simp
    with None show ?thesis by (simp add: handle_command_create_def p' Let_def s1(1,2))
  next
    case (Some dir)
    with r obtain q where q: "r = Some q" "deref s1 q = Inr dir" by auto
    show ?thesis
      by (simp add: handle_command_create_def p' Let_def s1(1,2) q Some owner_ports_cong [OF keep(2)] keep(6) cong: if_cong)
  qed
  with s1(3,4) that show ?thesis by blast
qed

lemma create_forward_paths:
  assumes coh: "coherent s1" and same: "same_but_cache s s1" and new: "info_at (file_trie s) p = None"
  shows "wlp (\<lambda>s'. coherent s' \<and> info_at (file_trie s') =
              (if succeeded (owner_reply E (fi_ip dir) nm_port command s)
               then (info_at (file_trie s))(p \<mapsto> entry_below dir p) else info_at (file_trie s)) \<and>
            relayed fd (owner_reply E (fi_ip dir) nm_port command s) s s')
     (create_forward E fd command d p dir nm_port b1 b2 s1)"
proof (rule wlp_mono [OF create_forward_wlp], goal_cases)
  case (1 s')
  note keep = same_but_cacheD [OF same] same_but_cache_eqs [OF same]
  have reply: "owner_reply E (fi_ip dir) nm_port command s1 = owner_reply E (fi_ip dir) nm_port command s"
    by (rule owner_reply_cong) (rule keep(4))
  have "info_at (file_trie s1) p = None" using new keep(1) by simp
  from coherent_put [OF coh this, of s' dir] 1 coh show ?case
    unfolding reply keep(1) relayed_def keep(2,3,5) by (auto simp: coherent_def keep(1))
qed

lemma create_unknown_wlp:
  assumes coh: "coherent s" and d: "path_ok d" and p: "p = snprintf MAX_FILE_PATH_SIZE (d @ ''/'' @ f)"
    and new: "info_at (file_trie s) p = None"
  shows "wlp (\<lambda>s'. coherent s' \<and> info_at (file_trie s') = create_paths E command d p s \<and>
            write_clients s' = write_clients s \<and> server_count s' = server_count s \<and>
            (\<forall>c. c \<noteq> fd \<longrightarrow> replies (Conn c) s' = replies (Conn c) s) \<and>
            (\<exists>out. replies (Conn fd) s' = replies (Conn fd) s @ out \<and> length out \<le> 1))
           (handle_command_create E fd command d f s)"
proof -
  obtain s1 where eq: "handle_command_create E fd command d f s =
      (case info_at (file_trie s) d of
         None \<Rightarrow> Inr (insert_log E CLIENT (int fd) NS_PORT CREATE ''Directory not found'' FILE_NOT_FOUND
                       (send_text (Conn fd) (''Directory not found'' @ nl) s1))
       | Some dir \<Rightarrow>
           (case owner_ports dir s of (nm_port, b1, b2) \<Rightarrow>
              if nm_port = -1 then
                Inr (insert_log E CLIENT (int fd) NS_PORT CREATE
                      ''No matching storage server found'' SERVER_NOT_FOUND s1)
              else if check_active_server (fi_ip dir) (fi_port_client dir) s = 0
              then Inr (send_text (Conn fd) ''SERVER NOT ACTIVE'' s1)
              else create_forward E fd command d p dir nm_port b1 b2 s1))"
    and coh1: "coherent s1" and same: "same_but_cache s s1"
    by (rule create_new [OF coh d p new])
  note keep = same_but_cacheD [OF same] same_but_cache_eqs [OF same]
  show ?thesis
  proof (cases "info_at (file_trie s) d")
    case None
    then show ?thesis using eq coh1 keep new by (simp add: coherent_def create_paths_def)
  next
    case (Some dir)
    obtain nm_port b1 b2 where ports: "owner_ports dir s = (nm_port, b1, b2)" by (cases "owner_ports dir s")
    show ?thesis
    proof (cases "nm_port = -1 \<or> check_active_server (fi_ip dir) (fi_port_client dir) s = 0")
      case True
      then show ?thesis using eq coh1 keep new Some ports by (auto simp: coherent_def create_paths_def)
    next
      case False
      with eq Some ports have run: "handle_command_create E fd command d f s =
          create_forward E fd command d p dir nm_port b1 b2 s1" by simp
      from False new Some ports have paths: "create_paths E command d p s =
          (if succeeded (owner_reply E (fi_ip dir) nm_port command s)
           then (info_at (file_trie s))(p \<mapsto> entry_below dir p) else info_at (file_trie s))"
        by (simp add: create_paths_def)
      show ?thesis
        unfolding run paths
        by (rule wlp_mono [OF create_forward_paths [OF coh1 same new]]) (auto simp: relayed_def)
    qed
  qed
qed

text \<open>
  C4: CREATE changes the known paths exactly as the abstract \<open>create_paths\<close> says: the new path
  appears, on the server of its directory, when it was unknown, its directory is known, that
  server is active and reports success; in every other case nothing changes. The cache stays
  coherent and at most one message goes to the client, none to others.
\<close>

lemma handle_command_create_wlp:
  assumes coh: "coherent s" and d: "path_ok d" and p: "p = snprintf MAX_FILE_PATH_SIZE (d @ ''/'' @ f)"
  shows "wlp (\<lambda>s'. coherent s' \<and> info_at (file_trie s') = create_paths E command d p s \<and>
            write_clients s' = write_clients s \<and> server_count s' = server_count s \<and>
            (\<forall>c. c \<noteq> fd \<longrightarrow> replies (Conn c) s' = replies (Conn c) s) \<and>
            (\<exists>out. replies (Conn fd) s' = replies (Conn fd) s @ out \<and> length out \<le> 1))
           (handle_command_create E fd command d f s)"
proof (cases "info_at (file_trie s) p")
  case old: (Some old)
  obtain s1 where "handle_command_create E fd command d f s =
      Inr (insert_log E CLIENT (int fd) NS_PORT CREATE ''File already exists'' FILE_NOT_FOUND
             (send_text (Conn fd) (''File already exists'' @ nl) s1))"
    and "coherent s1" and same: "same_but_cache s s1"
    by (rule create_existing [OF coh d p old])
  then show ?thesis
    using same_but_cacheD [OF same] same_but_cache_eqs [OF same] old
    by (simp add: coherent_def create_paths_def)
next
  case None
  then show ?thesis by (rule create_unknown_wlp [OF coh d p])
qed

lemma handle_command_create_witness:
  "wlp (\<lambda>s'. info_at (file_trie s') = (info_at sample_trie)(''d/g.c'' \<mapsto> entry_below dir_info ''d/g.c''))
     (handle_command_create sample_env 4 ''CREATE d g.c'' ''d'' ''g.c'' sample_nm)"
proof -
  have "owner_reply sample_env ''10.0.0.1'' 5001 ''CREATE d g.c'' sample_nm = Some ''success''"
    by (simp add: owner_reply_def dial_def net_recv_def sample_env_def)
  moreover have "succeeded (Some ''success'')" by (simp add: succeeded_def strstr.simps)
  moreover have "owner_ports dir_info sample_nm = (5001, ('''', 0), ('''', 0))"
    by (simp add: owner_ports_def server_index_def owner_row_def)
  ultimately have paths: "create_paths sample_env ''CREATE d g.c'' ''d'' ''d/g.c'' sample_nm =
      (info_at sample_trie)(''d/g.c'' \<mapsto> entry_below dir_info ''d/g.c'')"
    by (simp add: create_paths_def del: info_at_sample) simp
  have "''d/g.c'' = snprintf MAX_FILE_PATH_SIZE (''d'' @ ''/'' @ ''g.c'')" by simp
  from handle_command_create_wlp [OF coherent_sample _ this, of sample_env "''CREATE d g.c''" 4] show ?thesis
    unfolding paths by (rule wlp_mono) simp_all
qed

section \<open>Keeping an inactive backup up to date\<close>

lemma cut_paths_wp:
  assumes "i < server_count s" and "home (storage_servers s ! i) = Some h"
  shows "wp (\<lambda>(t, s'). t = h \<and> same_server (storage_servers s ! i) (storage_servers s' ! i) \<and>
            (\<forall>j. j \<noteq> i \<longrightarrow> storage_servers s' ! j = storage_servers s ! j) \<and>
            server_count s' = server_count s \<and> trace s' = trace s \<and>
            file_trie s' = file_trie s \<and> nm_cache s' = nm_cache s) (cut_paths i s)"
proof -
  obtain buf where cut: "strtok_first (CHR '','') (ss_accessible_paths (storage_servers s ! i)) = (Some h, buf)"
    using assms(2) by (cases "strtok_first (CHR '','') (ss_accessible_paths (storage_servers s ! i))")
      (auto simp: home_def)
  from home_cut [OF this] assms(1) cut show ?thesis by (simp add: cut_paths_def)
qed

lemma same_server_fields:
  assumes "same_server x y"
  shows "ss_ip y = ss_ip x" "ss_port_client y = ss_port_client x" "ss_commands y = ss_commands x"
    "ss_is_active y = ss_is_active x" "ss_port_nm y = ss_port_nm x"
  using assms by (cases x; cases y; simp add: same_server_def)+

lemma cut_paths_index:
  assumes "i < server_count s" and "same_server (storage_servers s ! i) (storage_servers s' ! i)"
    and "\<forall>j. j \<noteq> i \<longrightarrow> storage_servers s' ! j = storage_servers s ! j"
    and "server_count s' = server_count s"
  shows "server_index ip port s' = server_index ip port s"
proof -
  have "list_all2 same_server (storage_servers s) (storage_servers s')"
    unfolding list_all2_conv_all_nth using assms by (metis same_server_refl)
  then show ?thesis by (rule same_table_index)
qed

text \<open>
  With an inactive backup the block connects to nobody. It appends the command, its
  directory moved below the backup's home directory, to the queue of the backup.
\<close>

text \<open>
  C17: With an inactive backup, CREATE connects to nobody for it: the command, its directory moved
  below the home directory of the backup, joins the end of the backup's queue, and no other row
  changes.
\<close>

lemma create_backup_queues:
  assumes b: "has_backup ip port" and i: "server_index ip port s = Some i"
    and inactive: "ss_is_active (storage_servers s ! i) = 0"
    and h: "home (storage_servers s ! i) = Some h"
    and room: "ss_command_count (storage_servers s ! i) < MAX_COMMANDS"
    and ws: "sscanf_words command = [name, dir_path, file_name]"
    and len: "length name < 100" "length dir_path < 1000" "length file_name < 100"
  shows "wp (\<lambda>(r, s'). r = Some h \<and> trace s' = trace s \<and> file_trie s' = file_trie s \<and>
            ss_commands (storage_servers s' ! i) = ss_commands (storage_servers s ! i) @
              [snprintf 5000 (name @ '' '' @ h @ ''/'' @ dir_path @ '' '' @ file_name)] \<and>
            (\<forall>j. j \<noteq> i \<longrightarrow> storage_servers s' ! j = storage_servers s ! j))
           (create_backup E fd command ip port arg1 s)"
proof -
  let ?c2 = "snprintf 5000 (name @ '' '' @ h @ ''/'' @ dir_path @ '' '' @ file_name)"
  have less: "i < server_count s" using i by (simp add: server_index_Some)
  from cut_paths_wp [OF less h] obtain s1 where cut: "cut_paths i s = Inr (h, s1)"
    and same: "same_server (storage_servers s ! i) (storage_servers s1 ! i)"
    and other: "\<forall>j. j \<noteq> i \<longrightarrow> storage_servers s1 ! j = storage_servers s ! j"
    and count: "server_count s1 = server_count s" and "trace s1 = trace s" "file_trie s1 = file_trie s"
    unfolding wp_iff by auto
  note keep = this(5,6)
  have i1: "server_index ip port s1 = Some i" using cut_paths_index [OF less same other count] i by simp
  have room1: "ss_command_count (storage_servers s1 ! i) < MAX_COMMANDS"
    using room same_server_fields(3) [OF same] by (simp add: ss_command_count_def)
  have "length ?c2 < 5000" by (rule length_snprintf) simp
  from addcommand_wp [OF i1 room1 this] obtain s2 where add: "addcommand ip port ?c2 s1 = Inr s2"
    and "ss_commands (storage_servers s2 ! i) = ss_commands (storage_servers s1 ! i) @ [?c2]"
      "\<forall>j. j \<noteq> i \<longrightarrow> storage_servers s2 ! j = storage_servers s1 ! j"
      "file_trie s2 = file_trie s1" "trace s2 = trace s1"
    unfolding wp_iff by blast
  note keep2 = this(2-)
  have "check_active_server ip port s = 0" using i inactive by (simp add: check_active_server_def)
  then have "create_backup E fd command ip port arg1 s = Inr (Some h, s2)"
    using b i len add by (simp add: create_backup_def Let_def backup_home_def cut scan_word_def ws)
  then show ?thesis using keep keep2 other same_server_fields(3) [OF same] by simp
qed

lemma create_backup_queues_witness:
  "wp (\<lambda>(r, s'). ss_commands (storage_servers s' ! 1) = [''CREATE e/d old.c'', ''CREATE e/d g.c''])
     (create_backup sample_env 4 ''CREATE d g.c'' ''10.0.0.2'' 6002 ''d'' backed_nm)"
proof -
  have "server_index ''10.0.0.2'' 6002 backed_nm = Some 1"
    by (simp add: server_index_def owner_row_def spare_row_def)
  moreover have "sscanf_words ''CREATE d g.c'' = [''CREATE'', ''d'', ''g.c'']"
    by (simp add: sscanf_words_def split_on_def isspace_def)
  moreover have "home spare_row = Some ''e''" by (simp add: home_def spare_row_def strtok_first_def Let_def)
  ultimately show ?thesis
    using create_backup_queues [of "''10.0.0.2''" 6002 backed_nm 1 "''e''" "''CREATE d g.c''" "''CREATE''" "''d''" "''g.c''" sample_env 4 "''d''"]
    by (auto simp: has_backup_def spare_row_def ss_command_count_def elim!: wp_mono)
qed

end
