(* ===== verification/NM_Delete.thy ===== *)
theory NM_Delete
  imports NM_Create
begin

text \<open>
  \<open>handle_command_delete\<close> of \<open>naming_server.c\<close>: the request is forwarded to the owner of
  the file, the record leaves the cache and the trie, and the request is repeated on (or
  queued for) the two backups.

  The record to remove is named by \<open>file_info->file_path\<close>, read twice through the pointer of
  the lookup. When the pointer points into the cache, the removal from the cache moves
  another entry under it between the two reads.
\<close>

section \<open>The handler\<close>

definition read_path :: "nm \<Rightarrow> fi_ptr \<Rightarrow> string result" where
  "read_path s p = andthen (deref s p) (\<lambda>fi. arr_get MAX_FILE_PATH_SIZE (fi_file_path fi))"

definition delete_metadata :: "fi_ptr \<Rightarrow> nm \<Rightarrow> nm result" where
  "delete_metadata fip s =
     andthen (read_path s fip) (\<lambda>path.
     andthen (remove_from_cache path (nm_cache s)) (\<lambda>c.
     let s = s\<lparr>nm_cache := c\<rparr> in
     andthen (read_path s fip) (\<lambda>path.
     Inr (s\<lparr>file_trie := delete_file_info (file_trie s) path\<rparr>))))"

text \<open>
  The exchange with an active backup: the command is sent and the connection closed without
  waiting for an answer. The log still says CREATE. The flag is as in \<^const>\<open>create_exchange\<close>.
\<close>

definition delete_exchange ::
  "env \<Rightarrow> nat \<Rightarrow> string \<Rightarrow> int \<Rightarrow> string \<Rightarrow> nm \<Rightarrow> bool \<times> nm" where
  "delete_exchange E fd ip port command2 s =
     (case dial E ip port s of
        (No_socket, s) \<Rightarrow>
          (False, insert_log E CLIENT (int fd) port CREATE ''Socket creation failed'' 500 s)
      | (Bad_address, s) \<Rightarrow>
          (False, insert_log E CLIENT (int fd) port CREATE ''Invalid address'' 400 s)
      | (Refused, s) \<Rightarrow>
          (False, insert_log E CLIENT (int fd) port CREATE ''Connection failed'' 500 s)
      | (Dialled k, s) \<Rightarrow> (True, net_close (Peer k) (send_text (Peer k) command2 s)))"

definition delete_backup ::
  "env \<Rightarrow> nat \<Rightarrow> string \<Rightarrow> string \<Rightarrow> int \<Rightarrow> string \<Rightarrow> nm \<Rightarrow> (string option \<times> nm) result" where
  "delete_backup E fd command ip port arg1 s =
     (if \<not> has_backup ip port then Inr (Some arg1, s)
      else
        let active = check_active_server ip port s; ws = sscanf_words command in
        andthen (scan_word 100 ws 0 (e_junk E ''name'')) (\<lambda>name.
        andthen (scan_word 1000 ws 1 (e_junk E ''dir_path'')) (\<lambda>dir_path.
        andthen (backup_home ip port arg1 s) (\<lambda>(arg1, s).
        let command2 = snprintf 5000 (name @ '' '' @ arg1 @ ''/'' @ dir_path) in
        if active = 0 then
          andthen (addcommand ip port command2 s) (\<lambda>s. Inr (Some arg1, s))
        else
          (case delete_exchange E fd ip port command2 s of
             (go_on, s) \<Rightarrow> Inr (if go_on then Some arg1 else None, s))))))"

definition delete_forward ::
  "env \<Rightarrow> nat \<Rightarrow> string \<Rightarrow> string \<Rightarrow> fi_ptr \<Rightarrow> FILEINFO \<Rightarrow> int \<Rightarrow> string \<times> int \<Rightarrow> string \<times> int \<Rightarrow> nm \<Rightarrow> nm result" where
  "delete_forward E fd command arg1 fip fi nm_port b1 b2 s =
     (case dial E (fi_ip fi) nm_port s of
        (No_socket, s) \<Rightarrow> Inr s
      | (Bad_address, s) \<Rightarrow> Inr s
      | (Refused, s) \<Rightarrow> Inr s
      | (Dialled k, s) \<Rightarrow>
          (case net_recv E (Peer k) BUFFER_SIZE (send_text (Peer k) command s) of
             (None, s) \<Rightarrow> Inr (net_close (Peer k) s)
           | (Some bs, s) \<Rightarrow> andthen (terminate BUFFER_SIZE bs) (\<lambda>response.
               andthen (delete_metadata fip s) (\<lambda>s.
               let s = net_close (Peer k) (send_text (Conn fd) bs s) in
               andthen (delete_backup E fd command (fst b1) (snd b1) arg1 s) (\<lambda>(r1, s).
               case r1 of
                 None \<Rightarrow> Inr s
               | Some arg1 \<Rightarrow>
                   andthen (delete_backup E fd command (fst b2) (snd b2) arg1 s) (\<lambda>(_, s). Inr s))))))"

definition handle_command_delete :: "env \<Rightarrow> nat \<Rightarrow> string \<Rightarrow> string \<Rightarrow> nm \<Rightarrow> nm result" where
  "handle_command_delete E fd command arg1 s =
     (let is_file = strchr (CHR ''.'') arg1 \<noteq> None in
      if \<not> is_file then Inr s
      else
        andthen (find_file_info arg1 s) (\<lambda>(r, s).
        case r of
          None \<Rightarrow> Inr (send_text (Conn fd) (''File not found'' @ nl) s)
        | Some fip \<Rightarrow> andthen (deref s fip) (\<lambda>fi.
            if check_active_server (fi_ip fi) (fi_port_client fi) s = 0
            then Inr (send_text (Conn fd) ''SERVER NOT ACTIVE'' s)
            else
              (case owner_ports fi s of (nm_port, b1, b2) \<Rightarrow>
                 if nm_port = -1 then Inr s
                 else delete_forward E fd command arg1 fip fi nm_port b1 b2 s))))"

section \<open>What the backup blocks change\<close>

lemma quiet_delete_exchange: "quiet s (snd (delete_exchange E fd ip port command2 s))"
proof -
  obtain d s1 where d: "dial E ip port s = (d, s1)" by (cases "dial E ip port s")
  then have "quiet s s1" by (rule quiet_dial)
  with d show ?thesis by (cases d) (simp_all add: delete_exchange_def)
qed

lemma quiet_delete_backup: "wlp (\<lambda>(r, s'). quiet s s') (delete_backup E fd command ip port arg1 s)"
proof (cases "has_backup ip port")
  case False
  then show ?thesis by (simp add: delete_backup_def)
next
  case True
  have queue: "wlp (\<lambda>(r, s'). quiet s s') (andthen (addcommand ip port c2 s1) (\<lambda>s. Inr (Some a, s)))"
    if "quiet s s1" for c2 a s1
    by (rule quiet_bind1 [OF quiet_addcommand]) (simp add: quiet_trans [OF that])
  have talk: "wlp (\<lambda>(r, s'). quiet s s')
      (case delete_exchange E fd ip port c2 s1 of (g, s) \<Rightarrow> Inr (if g then Some a else None, s))"
    if "quiet s s1" for c2 a s1
    using quiet_trans [OF that quiet_delete_exchange [of s1 E fd ip port c2]]
    by (simp add: case_prod_beta)
  show ?thesis
    unfolding delete_backup_def Let_def
    apply (subst if_not_P)
    subgoal using True by simp
    apply (rule wlp_bind_any, rule wlp_bind_any)
    apply (rule quiet_bind [OF quiet_backup_home])
    apply (unfold prod.case)
    apply (unfold wlp_if)
    by (simp only: queue talk if_True if_False cong: if_cong split: if_split) blast
qed

section \<open>Which record goes\<close>

text \<open>Tables and caches whose records name a path that fits its array.\<close>

definition cached_paths_fit :: "nm \<Rightarrow> bool" where
  "cached_paths_fit s \<longleftrightarrow>
     list_all (\<lambda>e. length (fi_file_path (snd e)) < MAX_FILE_PATH_SIZE) (live (nm_cache s))"

lemma read_path_trie:
  assumes "info_at (file_trie s) q = Some fi" and "length (fi_file_path fi) < MAX_FILE_PATH_SIZE"
  shows "read_path s (TriePtr q) = Inr (fi_file_path fi)"
  using assms by (simp add: read_path_def deref_def)

lemma read_path_cache:
  assumes "length (fi_file_path (cache_top (nm_cache s))) < MAX_FILE_PATH_SIZE"
  shows "read_path s CachePtr = Inr (fi_file_path (cache_top (nm_cache s)))"
  using assms by (simp add: read_path_def deref_def)

text \<open>Through a pointer into the trie the record of the path itself goes.\<close>

lemma delete_metadata_trie:
  assumes coh: "coherent s" and at: "info_at (file_trie s) q = Some fi"
    and self: "fi_file_path fi = q" and fits: "length q < MAX_FILE_PATH_SIZE"
  shows "wp (\<lambda>s'. coherent s' \<and> info_at (file_trie s') = (info_at (file_trie s))(q := None) \<and>
            s' = s\<lparr>nm_cache := nm_cache s', file_trie := file_trie s'\<rparr>)
           (delete_metadata (TriePtr q) s)"
proof -
  from coh have pair: "names.coherent_pair (nm_cache s) (file_trie s)" by (simp add: coherent_pair)
  from names.remove_delete_coherent [OF pair, of q] obtain c
    where c: "remove_from_cache q (nm_cache s) = Inr c"
      "names.coherent_pair c (delete_file_info (file_trie s) q)"
    unfolding wp_iff by blast
  let ?s1 = "s\<lparr>nm_cache := c\<rparr>"
  have "read_path s (TriePtr q) = Inr q"
    using read_path_trie [OF at] self fits by simp
  moreover have "read_path ?s1 (TriePtr q) = Inr q"
    using read_path_trie [of ?s1 q fi] at self fits by simp
  ultimately have "delete_metadata (TriePtr q) s = Inr (?s1\<lparr>file_trie := delete_file_info (file_trie s) q\<rparr>)"
    using c(1) by (simp add: delete_metadata_def)
  with c(2) show ?thesis by (simp add: coherent_pair info_at_delete)
qed

text \<open>
  Through a pointer into the cache the entry of the path leaves the cache, and then the
  record the next entry names leaves the trie; the record of the path itself stays unless
  it was the only cached one.
\<close>

lemma delete_metadata_cached:
  assumes wf: "cache_wf (nm_cache s)" and l: "live (nm_cache s) = (q, fi) # rest"
    and self: "fi_file_path fi = q" and fits: "cached_paths_fit s"
  shows "wp (\<lambda>s'. live (nm_cache s') = rest \<and> cache_wf (nm_cache s') \<and>
            info_at (file_trie s') = (info_at (file_trie s))
              ((case rest of [] \<Rightarrow> q | e # _ \<Rightarrow> fi_file_path (snd e)) := None) \<and>
            s' = s\<lparr>nm_cache := nm_cache s', file_trie := file_trie s'\<rparr>)
           (delete_metadata CachePtr s)"
proof -
  let ?c = "nm_cache s"
  let ?victim = "case rest of [] \<Rightarrow> q | e # _ \<Rightarrow> fi_file_path (snd e)"
  define c where "c = \<lparr>slots = shift_left 0 (cache_count ?c - 1) (slots ?c), cache_count = cache_count ?c - 1\<rparr>"
  have top: "cache_top ?c = fi" using cache_top_live [OF wf] l by simp
  have rem: "remove_from_cache q ?c = Inr c"
    using remove_from_cache_eq [OF wf, of q] l by (simp add: c_def)
  have "lru_remove q (live ?c) = rest" by (simp add: lru_remove_def l)
  with remove_from_cache_wp [OF wf, of q] rem have c: "cache_wf c" "live c = rest" by simp_all
  have victim: "fi_file_path (cache_top c) = ?victim"
  proof (cases rest)
    case Nil
    then have "cache_count ?c = 1" using length_live [OF wf] l by simp
    then have "cache_top c = fi" using top by (simp add: c_def cache_top_def)
    with Nil self show ?thesis by simp
  next
    case (Cons e es)
    then have "cache_top c = snd e" using cache_top_live [OF c(1)] c(2) by simp
    with Cons show ?thesis by simp
  qed
  have "length q < MAX_FILE_PATH_SIZE" and "length ?victim < MAX_FILE_PATH_SIZE"
    using fits l self by (auto simp: cached_paths_fit_def split: list.split)
  then have "read_path s CachePtr = Inr q" and "read_path (s\<lparr>nm_cache := c\<rparr>) CachePtr = Inr ?victim"
    using read_path_cache [of s] read_path_cache [of "s\<lparr>nm_cache := c\<rparr>"] top self victim by simp_all
  then have "delete_metadata CachePtr s =
      Inr (s\<lparr>nm_cache := c, file_trie := delete_file_info (file_trie s) ?victim\<rparr>)"
    using rem by (simp add: delete_metadata_def)
  then show ?thesis using c by (simp add: info_at_delete)
qed

section \<open>The whole request\<close>

text \<open>
  The exchange with the owner. Without an answer nothing changes; with any answer, success
  or not, the metadata goes and the answer is relayed.
\<close>

definition answered :: "nat \<Rightarrow> string \<Rightarrow> nm \<Rightarrow> nm \<Rightarrow> bool" where
  "answered fd bs s s' \<longleftrightarrow>
     write_clients s' = write_clients s \<and> server_count s' = server_count s \<and>
     replies (Conn fd) s' = replies (Conn fd) s @ [Text bs] \<and>
     (\<forall>c. c \<noteq> fd \<longrightarrow> replies (Conn c) s' = replies (Conn c) s)"

lemma delete_tail_wlp:
  "wlp (\<lambda>s'. quiet s s')
     (andthen (delete_backup E fd command ip1 port1 arg1 s) (\<lambda>(r1, s).
       case r1 of
         None \<Rightarrow> Inr s
       | Some arg1 \<Rightarrow> andthen (delete_backup E fd command ip2 port2 arg1 s) (\<lambda>(_, s). Inr s)))"
proof (rule quiet_bind [OF quiet_delete_backup])
  fix r1 s1 assume q: "quiet s s1"
  have "wlp (\<lambda>s'. quiet s s') (andthen (delete_backup E fd command ip2 port2 a s1) (\<lambda>(_, s). Inr s))" for a
    by (rule quiet_bind [OF quiet_delete_backup]) (simp add: quiet_trans [OF q])
  with q show "wlp (\<lambda>s'. quiet s s') ((\<lambda>(r1, s).
       case r1 of
         None \<Rightarrow> Inr s
       | Some arg1 \<Rightarrow> andthen (delete_backup E fd command ip2 port2 arg1 s) (\<lambda>(_, s). Inr s)) (r1, s1))"
    by (cases r1) (simp_all del: wlp_andthen)
qed

lemma delete_forward_wlp:
  assumes meta: "\<And>s1. file_trie s1 = file_trie s \<Longrightarrow> nm_cache s1 = nm_cache s \<Longrightarrow>
      wlp (\<lambda>s2. Q (nm_cache s2) (file_trie s2) \<and>
                s2 = s1\<lparr>nm_cache := nm_cache s2, file_trie := file_trie s2\<rparr>) (delete_metadata fip s1)"
  shows "wlp (\<lambda>s'. case owner_reply E (fi_ip fi) nm_port command s of
              None \<Rightarrow> quiet s s'
            | Some bs \<Rightarrow> Q (nm_cache s') (file_trie s') \<and> answered fd bs s s')
     (delete_forward E fd command arg1 fip fi nm_port b1 b2 s)"
proof -
  obtain d s1 where d: "dial E (fi_ip fi) nm_port s = (d, s1)" by (cases "dial E (fi_ip fi) nm_port s")
  then have q1: "quiet s s1" by (rule quiet_dial)
  show ?thesis
  proof (cases d)
    case (Dialled k)
    obtain r s2 where r: "net_recv E (Peer k) BUFFER_SIZE (send_text (Peer k) command s1) = (r, s2)"
      by (cases "net_recv E (Peer k) BUFFER_SIZE (send_text (Peer k) command s1)")
    have reply: "owner_reply E (fi_ip fi) nm_port command s = r"
      using d Dialled r by (simp add: owner_reply_def)
    have q2: "quiet s s2" using q1 r by (rule quiet_peer)
    show ?thesis
    proof (cases r)
      case None
      with d Dialled r reply q2 show ?thesis by (simp add: delete_forward_def)
    next
      case (Some bs)
      have finish: "wlp (\<lambda>s'. Q (nm_cache s') (file_trie s') \<and> answered fd bs s s')
        (andthen (delete_backup E fd command (fst b1) (snd b1) arg1 (net_close (Peer k) (send_text (Conn fd) bs s3)))
          (\<lambda>(r1, s). case r1 of None \<Rightarrow> Inr s
            | Some arg1 \<Rightarrow> andthen (delete_backup E fd command (fst b2) (snd b2) arg1 s) (\<lambda>(_, s). Inr s)))"
        if Q: "Q (nm_cache s3) (file_trie s3)"
          and s3: "s3 = s2\<lparr>nm_cache := nm_cache s3, file_trie := file_trie s3\<rparr>" for s3
      proof (rule wlp_mono [OF delete_tail_wlp])
        fix s4 assume q4: "quiet (net_close (Peer k) (send_text (Conn fd) bs s3)) s4"
        have "write_clients s3 = write_clients s2" "server_count s3 = server_count s2"
          "replies c s3 = replies c s2" for c
          by (subst s3, simp add: replies_def)+
        with Q q2 q4 show "Q (nm_cache s4) (file_trie s4) \<and> answered fd bs s s4"
          by (simp add: answered_def quiet_def)
      qed
      have trie2: "file_trie s2 = file_trie s" and cache2: "nm_cache s2 = nm_cache s"
        using q2 by (simp_all add: quiet_def)
      have "wlp (\<lambda>s3. wlp (\<lambda>s'. Q (nm_cache s') (file_trie s') \<and> answered fd bs s s')
        (andthen (delete_backup E fd command (fst b1) (snd b1) arg1 (net_close (Peer k) (send_text (Conn fd) bs s3)))
          (\<lambda>(r1, s). case r1 of None \<Rightarrow> Inr s
            | Some arg1 \<Rightarrow> andthen (delete_backup E fd command (fst b2) (snd b2) arg1 s) (\<lambda>(_, s). Inr s))))
        (delete_metadata fip s2)"
        by (rule wlp_mono [OF meta [OF trie2 cache2]]) (rule finish; blast)
      then show ?thesis
        using d Dialled r Some reply
        by (simp add: delete_forward_def terminate_def Let_def del: wlp_andthen)
           (simp add: wlp_iff andthen_eq_Inr, blast)
    qed
  qed (use d q1 in \<open>simp_all add: delete_forward_def owner_reply_def\<close>)
qed

text \<open>The pointer a lookup returns, by whether the path is cached.\<close>

lemma find_file_info_pointer:
  assumes coh: "coherent s" and ok: "path_ok p" and at: "info_at (file_trie s) p = Some fi"
  shows "wp (\<lambda>(r, s'). coherent s' \<and> same_but_cache s s' \<and>
     (case lru_touch p (live (nm_cache s)) of
        Some l \<Rightarrow> r = Some CachePtr \<and> live (nm_cache s') = l \<and> (\<exists>rest. l = (p, fi) # rest)
      | None \<Rightarrow> r = Some (TriePtr p))) (find_file_info p s)"
proof -
  from coh have wf: "cache_wf (nm_cache s)" by (simp add: coherent_def)
  obtain hit c where find: "find_in_cache p (nm_cache s) = Inr (hit, c)"
    and hit: "case lru_touch p (live (nm_cache s)) of None \<Rightarrow> \<not> hit | Some l \<Rightarrow> hit \<and> live c = l"
    using find_in_cache_wp [OF wf, of p] by (auto simp: wp_iff split: option.splits)
  obtain r s' where look: "find_file_info p s = Inr (r, s')" "coherent s'" "same_but_cache s s'"
    using find_file_info_wp [OF coh ok] by (auto simp: wp_iff)
  show ?thesis
  proof (cases "lru_touch p (live (nm_cache s))")
    case None
    with hit find look at show ?thesis by (simp add: find_file_info_cached)
  next
    case (Some l)
    with hit find look(1) have r: "r = Some CachePtr" "s' = s\<lparr>nm_cache := c\<rparr>" "live c = l"
      by (simp_all add: find_file_info_cached)
    obtain v where v: "hd l = (p, v)" "(p, v) \<in> set (live (nm_cache s))" using lru_touch_hd [OF Some] by blast
    have "l \<noteq> []" using lru_touch_mset [OF Some] v(2) by auto
    have "cache_view (nm_cache s) p = Some v"
      using wf v(2) by (simp add: cache_view_def cache_wf_def map_of_is_SomeI)
    with coh have "info_at (file_trie s) p = Some v" by (force simp: coherent_def map_le_def dom_def)
    with at v \<open>l \<noteq> []\<close> have "\<exists>rest. l = (p, fi) # rest" by (cases l) auto
    with Some look r show ?thesis by simp
  qed
qed

text \<open>The path whose record DELETE of \<open>p\<close> removes from the trie.\<close>

definition delete_victim :: "string \<Rightarrow> nm \<Rightarrow> string" where
  "delete_victim p s =
     (case lru_touch p (live (nm_cache s)) of
        Some (_ # e # _) \<Rightarrow> fi_file_path (snd e)
      | _ \<Rightarrow> p)"

lemma cached_paths_fit_touch:
  assumes "cached_paths_fit s" and "lru_touch p (live (nm_cache s)) = Some l"
    and "live (nm_cache s') = l"
  shows "cached_paths_fit s'"
proof -
  have "set l = set (live (nm_cache s))" using lru_touch_mset [OF assms(2)] by (rule mset_eq_setD)
  with assms show ?thesis by (simp add: cached_paths_fit_def list_all_iff)
qed

text \<open>What removing the metadata through the pointer of the lookup does.\<close>

lemma delete_metadata_lookup:
  assumes coh: "coherent s" and ok: "path_ok p" and at: "info_at (file_trie s) p = Some fi"
    and self: "fi_file_path fi = p" and fits: "cached_paths_fit s"
    and look: "find_file_info p s = Inr (Some fip, s')"
    and trie: "file_trie s1 = file_trie s'" and cache: "nm_cache s1 = nm_cache s'"
  shows "wp (\<lambda>s2. (cache_wf (nm_cache s2) \<and>
             info_at (file_trie s2) = (info_at (file_trie s))(delete_victim p s := None) \<and>
             (lru_touch p (live (nm_cache s)) = None \<longrightarrow> cache_view (nm_cache s2) \<subseteq>\<^sub>m info_at (file_trie s2))) \<and>
             s2 = s1\<lparr>nm_cache := nm_cache s2, file_trie := file_trie s2\<rparr>) (delete_metadata fip s1)"
proof -
  have s': "coherent s'" "same_but_cache s s'"
    and ptr: "case lru_touch p (live (nm_cache s)) of
        Some l \<Rightarrow> fip = CachePtr \<and> live (nm_cache s') = l \<and> (\<exists>rest. l = (p, fi) # rest)
      | None \<Rightarrow> fip = TriePtr p"
    using find_file_info_pointer [OF coh ok at] look by (auto split: option.splits)
  have coh1: "coherent s1" using s'(1) by (simp add: coherent_def trie cache)
  have trie1: "file_trie s1 = file_trie s" using trie same_but_cacheD(1) [OF s'(2)] by simp
  show ?thesis
  proof (cases "lru_touch p (live (nm_cache s))")
    case None
    with ptr have fip: "fip = TriePtr p" by simp
    have "info_at (file_trie s1) p = Some fi" "length p < MAX_FILE_PATH_SIZE"
      using at ok by (simp_all add: trie1 path_ok_def)
    note gone = delete_metadata_trie [OF coh1 this(1) self this(2)]
    show ?thesis
      unfolding fip by (rule wp_mono [OF gone]) (use None in \<open>auto simp: coherent_def trie1 delete_victim_def\<close>)
  next
    case (Some l)
    with ptr obtain rest where fip: "fip = CachePtr" and l: "l = (p, fi) # rest" "live (nm_cache s1) = l"
      by (auto simp: cache)
    have "cached_paths_fit s1" using fits Some l(2) by (rule cached_paths_fit_touch)
    with coh1 l self have "wp (\<lambda>s'. live (nm_cache s') = rest \<and> cache_wf (nm_cache s') \<and>
            info_at (file_trie s') = (info_at (file_trie s1))
              ((case rest of [] \<Rightarrow> p | e # _ \<Rightarrow> fi_file_path (snd e)) := None) \<and>
            s' = s1\<lparr>nm_cache := nm_cache s', file_trie := file_trie s'\<rparr>) (delete_metadata CachePtr s1)"
      by (intro delete_metadata_cached) (simp_all add: coherent_def)
    then show ?thesis
      unfolding fip by (rule wp_mono) (auto simp: Some l trie1 delete_victim_def split: list.split)
  qed
qed

lemma handle_command_delete_wlp:
  assumes coh: "coherent s" and ok: "path_ok p" and dot: "CHR ''.'' \<in> set p"
    and at: "info_at (file_trie s) p = Some fi" and self: "fi_file_path fi = p"
    and fits: "cached_paths_fit s"
    and active: "check_active_server (fi_ip fi) (fi_port_client fi) s \<noteq> 0"
    and port: "owner_nm_port fi s \<noteq> -1"
  shows "wlp (\<lambda>s'. case owner_reply E (fi_ip fi) (owner_nm_port fi s) command s of
              None \<Rightarrow> info_at (file_trie s') = info_at (file_trie s) \<and>
                      replies (Conn fd) s' = replies (Conn fd) s \<and> coherent s'
            | Some bs \<Rightarrow> info_at (file_trie s') = (info_at (file_trie s))(delete_victim p s := None) \<and>
                         replies (Conn fd) s' = replies (Conn fd) s @ [Text bs] \<and>
                         (lru_touch p (live (nm_cache s)) = None \<longrightarrow> coherent s'))
     (handle_command_delete E fd command p s)"
  using coh ok
proof (cases rule: lookup_cases)
  case (none s')
  with at show ?thesis by simp
next
  case (some q fi' s1)
  note keep = same_but_cacheD [OF some(3)] same_but_cache_eqs [OF some(3)]
  have fi': "fi' = fi" using some(4) at by simp
  obtain nm_port b1 b2 where ports: "owner_ports fi s = (nm_port, b1, b2)" by (cases "owner_ports fi s")
  have ports1: "owner_ports fi s1 = (nm_port, b1, b2)" using ports owner_ports_cong [OF keep(2)] by simp
  have reply: "owner_reply E ip n command s1 = owner_reply E ip n command s" for ip n
    by (rule owner_reply_cong) (rule keep(4))
  have is_file: "strchr CHR ''.'' p \<noteq> None" using dot by (simp add: strchr_None)
  have eq: "handle_command_delete E fd command p s = delete_forward E fd command p q fi nm_port b1 b2 s1"
    using is_file active port some(5) ports
    by (simp add: handle_command_delete_def some(1) fi' ports1 keep(6))
  note meta = wp_imp_wlp [OF delete_metadata_lookup [OF coh ok at self fits some(1)]]
  show ?thesis
    unfolding eq
    by (rule wlp_mono [OF delete_forward_wlp [OF meta]])
      (use some(2) keep ports in \<open>auto simp: reply quiet_def answered_def coherent_def split: option.splits\<close>)
qed

section \<open>Right and wrong records\<close>

text \<open>
  C7: DELETE of a file that is not cached removes exactly the record of that file from the trie
  and keeps the cache coherent, as soon as the owner answers anything; without an answer the
  paths stay as they were. The answer is relayed.
\<close>

lemma delete_uncached:
  assumes coh: "coherent s" and ok: "path_ok p" and dot: "CHR ''.'' \<in> set p"
    and at: "info_at (file_trie s) p = Some fi" and self: "fi_file_path fi = p"
    and fits: "cached_paths_fit s" and uncached: "cache_view (nm_cache s) p = None"
    and active: "check_active_server (fi_ip fi) (fi_port_client fi) s \<noteq> 0"
    and port: "owner_nm_port fi s \<noteq> -1"
  shows "wlp (\<lambda>s'. coherent s' \<and>
            (case owner_reply E (fi_ip fi) (owner_nm_port fi s) command s of
               None \<Rightarrow> info_at (file_trie s') = info_at (file_trie s) \<and>
                       replies (Conn fd) s' = replies (Conn fd) s
             | Some bs \<Rightarrow> info_at (file_trie s') = (info_at (file_trie s))(p := None) \<and>
                          replies (Conn fd) s' = replies (Conn fd) s @ [Text bs]))
     (handle_command_delete E fd command p s)"
proof -
  have none: "lru_touch p (live (nm_cache s)) = None"
    using uncached by (simp add: lru_touch_None cache_view_def map_of_eq_None_iff)
  then have "delete_victim p s = p" by (simp add: delete_victim_def)
  with none show ?thesis
    by (intro wlp_mono [OF handle_command_delete_wlp [OF coh ok dot at self fits active port]])
      (auto split: option.splits)
qed

lemma delete_uncached_witness:
  "wlp (\<lambda>s'. info_at (file_trie s') ''d/f.c'' = None) (handle_command_delete sample_env 4 ''DELETE d/f.c'' ''d/f.c'' sample_nm)"
proof -
  have "owner_ports leaf_info sample_nm = (5001, ('''', 0), ('''', 0))"
    by (simp add: owner_ports_def server_index_def owner_row_def)
  moreover have "owner_reply sample_env ''10.0.0.1'' 5001 ''DELETE d/f.c'' sample_nm = Some ''success''"
    by (simp add: owner_reply_def dial_def net_recv_def sample_env_def)
  moreover have "cached_paths_fit sample_nm" by (simp add: cached_paths_fit_def)
  ultimately show ?thesis
    using delete_uncached [where s = sample_nm and p = "''d/f.c''" and fi = leaf_info and E = sample_env
        and command = "''DELETE d/f.c''" and fd = 4]
    by (auto simp: cache_view_def elim!: wlp_mono)
qed

text \<open>
  C22: DELETE of the file that was looked up last, with another path behind it in the cache,
  removes the record of that other path and leaves the file itself known: the pointer the
  handler keeps points into the cache, whose removal loop shifts the other entry under it.
\<close>

lemma delete_neighbour:
  assumes coh: "coherent s" and ok: "path_ok p" and dot: "CHR ''.'' \<in> set p"
    and cached: "live (nm_cache s) = (p, fi) # (q, gi) # rest"
    and self: "fi_file_path fi = p" "fi_file_path gi = q" and fits: "cached_paths_fit s"
    and active: "check_active_server (fi_ip fi) (fi_port_client fi) s \<noteq> 0"
    and port: "owner_nm_port fi s \<noteq> -1"
    and reply: "owner_reply E (fi_ip fi) (owner_nm_port fi s) command s = Some bs"
  shows "wlp (\<lambda>s'. info_at (file_trie s') p = Some fi \<and> info_at (file_trie s') q = None)
     (handle_command_delete E fd command p s)"
proof -
  have view: "cache_view (nm_cache s) p = Some fi" by (simp add: cache_view_def cached)
  with coh have at: "info_at (file_trie s) p = Some fi" by (force simp: coherent_def map_le_def dom_def)
  have "p \<noteq> q" using coh by (auto simp: coherent_def cache_wf_def cached)
  moreover have "lru_touch p (live (nm_cache s)) = Some ((p, fi) # (q, gi) # rest)"
    by (simp add: lru_touch_def cached)
  then have "delete_victim p s = q" by (simp add: delete_victim_def self)
  ultimately show ?thesis
    by (intro wlp_mono [OF handle_command_delete_wlp [OF coh ok dot at self(1) fits active port]])
      (auto simp: reply at)
qed

lemma delete_neighbour_witness:
  "wlp (\<lambda>s'. info_at (file_trie s') ''d/f.c'' = Some leaf_info \<and> info_at (file_trie s') ''d'' = None)
     (handle_command_delete sample_env 4 ''DELETE d/f.c'' ''d/f.c'' cached_nm)"
proof -
  have ports: "owner_ports leaf_info cached_nm = (5001, ('''', 0), ('''', 0))"
    by (simp add: owner_ports_def server_index_def owner_row_def)
  have reply: "owner_reply sample_env ''10.0.0.1'' 5001 ''DELETE d/f.c'' cached_nm = Some ''success''"
    by (simp add: owner_reply_def dial_def net_recv_def sample_env_def)
  have "cached_paths_fit cached_nm" by (simp add: cached_paths_fit_def cached_live)
  then show ?thesis
    by (intro delete_neighbour [OF coherent_cached _ _ cached_live]) (simp_all add: ports reply)
qed

end
