(* ===== verification/NM_Copy.thy ===== *)
theory NM_Copy
  imports NM_Delete
begin

text \<open>
  \<open>handle_command_copy\<close> and \<open>backup\<close> of \<open>naming_server.c\<close>. Directories are copied by
  asking the source server for a folder copy and copying the sub-trie of the source path;
  files are read from the source server and written to the destination server by the naming
  server itself.
\<close>

section \<open>Pieces\<close>

definition same_owner :: "FILEINFO \<Rightarrow> FILEINFO \<Rightarrow> int" where
  "same_owner a b = (if fi_port_client a = fi_port_client b \<and> fi_ip a = fi_ip b then 1 else 0)"

definition copy_folder_request :: "FILEINFO \<Rightarrow> FILEINFO \<Rightarrow> string result" where
  "copy_folder_request src dst =
     andthen (arr_get MAX_FILE_PATH_SIZE (fi_file_path src)) (\<lambda>sp.
     andthen (arr_get MAX_FILE_PATH_SIZE (fi_file_path dst)) (\<lambda>dp.
     Inr (snprintf BUFFER_SIZE (''COPY_FOLDER '' @ sp @ '' '' @ fi_ip dst @ '' '' @
            dec (fi_port_client dst) @ '' '' @ dp @ '' '' @ dec (same_owner src dst)))))"

text \<open>
  \<open>z = recv(source_socket, msg, strlen(msg) - 1, 0); msg[z] = 0\<close> with \<open>msg[1024]\<close> never
  initialised: the length to receive depends on what the stack held, and wraps around for
  an empty string. A failed \<open>recv\<close> writes to \<open>msg[-1]\<close>.
\<close>

definition recv_msg :: "env \<Rightarrow> chan \<Rightarrow> nm \<Rightarrow> (string \<times> nm) result" where
  "recv_msg E c s =
     andthen (arr_get 1024 (e_junk E ''msg'')) (\<lambda>old.
       case net_recv E c (unat (of_nat (length old) - 1 :: 64 word)) s of
         (None, s) \<Rightarrow> Inl Overflow
       | (Some bs, s) \<Rightarrow> andthen (terminate 1024 bs) (\<lambda>msg. Inr (msg, s)))"

text \<open>
  The loop that accumulates a file in \<open>full_data[BUFFER_SIZE * 10]\<close>: it ends on an empty or
  failed \<open>recv\<close>, or when the next block would not fit.
\<close>

function recv_all :: "env \<Rightarrow> chan \<Rightarrow> string \<Rightarrow> nm \<Rightarrow> string \<times> nm" where
  "recv_all E c full_data s =
     (case net_recv E c BUFFER_SIZE s of
        (None, s) \<Rightarrow> (full_data, s)
      | (Some bs, s) \<Rightarrow>
          if bs = [] then (full_data, s)
          else if length full_data + length bs < BUFFER_SIZE * 10
          then recv_all E c (full_data @ bs) s
          else (full_data, s))"
  by auto
termination
proof (relation "measure (\<lambda>(E, c, full_data, s). BUFFER_SIZE * 10 - length full_data)", goal_cases)
  case 1
  show ?case by simp
next
  case (2 E c full_data s x s' bs)
  then have "0 < length bs" and "length full_data + length bs < 40960" by simp_all
  then have "40960 - (length full_data + length bs) < 40960 - length full_data" by linarith
  then show ?case by simp
qed

declare recv_all.simps [simp del]

section \<open>The handlers\<close>

definition copy_folders :: "env \<Rightarrow> nat \<Rightarrow> string \<Rightarrow> string \<Rightarrow> nm \<Rightarrow> nm result" where
  "copy_folders E fd arg1 arg2 s =
     andthen (find_file_info arg1 s) (\<lambda>(source_file_info, s).
     case source_file_info of
       None \<Rightarrow> Inr (send_text (Conn fd) (''Source File not found'' @ nl) s)
     | Some p \<Rightarrow> andthen (deref s p) (\<lambda>copied.
       if check_active_server (fi_ip copied) (fi_port_client copied) s = 0
       then Inr (send_text (Conn fd) ''SERVER NOT ACTIVE'' s)
       else
         (case dial_unchecked E (fi_ip copied) (fi_port_client copied) s of
            (None, s) \<Rightarrow> Inr s
          | (Some source_socket, s) \<Rightarrow>
              andthen (find_file_info arg2 s) (\<lambda>(dest_file_info, s).
              case dest_file_info of
                None \<Rightarrow> Inr (send_text (Conn fd) (''Dest File not found'' @ nl) s)
              | Some q \<Rightarrow> andthen (deref s q) (\<lambda>dest.
                  if check_active_server (fi_ip dest) (fi_port_client dest) s = 0
                  then Inr (send_text (Conn fd) ''SERVER NOT ACTIVE'' s)
                  else andthen (copy_folder_request copied dest) (\<lambda>request.
                    let s = s\<lparr>file_trie := copy_directory_trie (file_trie s) arg1 arg2\<rparr>;
                        s = send_text (Peer source_socket) request s
                    in andthen (recv_msg E (Peer source_socket) s) (\<lambda>(msg, s).
                       Inr (net_close (Peer source_socket)
                             (net_send (Conn fd) (ArrayMsg 1024 msg) s)))))))))"

text \<open>The end of a file copy: forward the data, then wait for one answer or two.\<close>

definition copy_wait :: "env \<Rightarrow> chan \<Rightarrow> nm \<Rightarrow> nm result" where
  "copy_wait E c s =
     (case net_recv E c BUFFER_SIZE s of
        (None, s) \<Rightarrow> Inr s
      | (Some bs, s) \<Rightarrow>
          if bs = [] then Inr s else andthen (terminate BUFFER_SIZE bs) (\<lambda>_. Inr s))"

definition copy_data :: "env \<Rightarrow> string \<Rightarrow> nat \<Rightarrow> nat \<Rightarrow> FILEINFO \<Rightarrow> nm \<Rightarrow> nm result" where
  "copy_data E arg2 source_socket dest_socket dest s =
     andthen (arr_get MAX_FILE_PATH_SIZE (fi_file_path dest)) (\<lambda>dp.
     let s = send_text (Peer dest_socket) (snprintf BUFFER_SIZE (''COPY_FILE|'' @ dp)) s;
         (full_data, s) = recv_all E (Peer source_socket) '''' s;
         s = (if full_data \<noteq> [] then send_text (Peer dest_socket) full_data s else s)
     in andthen (copy_wait E (Peer dest_socket) s) (\<lambda>s.
        andthen (if strstr '' --sync'' arg2 = None then copy_wait E (Peer dest_socket) s else Inr s) (\<lambda>s.
        Inr (net_close (Peer dest_socket) (net_close (Peer source_socket) s)))))"

text \<open>The part of a file copy behind the request to the source server.\<close>

definition copy_to_dest :: "env \<Rightarrow> nat \<Rightarrow> string \<Rightarrow> nat \<Rightarrow> nm \<Rightarrow> nm result" where
  "copy_to_dest E fd arg2 source_socket s =
     andthen (find_file_info arg2 s) (\<lambda>(dest_file_info, s).
     case dest_file_info of
       None \<Rightarrow> Inr (send_text (Conn fd) (''Dest File not found'' @ nl) s)
     | Some q \<Rightarrow> andthen (deref s q) (\<lambda>dest.
         if check_active_server (fi_ip dest) (fi_port_client dest) s = 0
         then Inr (send_text (Conn fd) ''DESTINATION SERVER NOT ACTIVE'' s)
         else
           (case dial_unchecked E (fi_ip dest) (fi_port_client dest) s of
              (None, s) \<Rightarrow> Inr (net_close (Peer source_socket) s)
            | (Some dest_socket, s) \<Rightarrow> copy_data E arg2 source_socket dest_socket dest s)))"

definition copy_files :: "env \<Rightarrow> nat \<Rightarrow> string \<Rightarrow> string \<Rightarrow> nm \<Rightarrow> nm result" where
  "copy_files E fd arg1 arg2 s =
     andthen (find_file_info arg1 s) (\<lambda>(source_file_info, s).
     case source_file_info of
       None \<Rightarrow> Inr (send_text (Conn fd) (''Source File not found'' @ nl) s)
     | Some p \<Rightarrow> andthen (deref s p) (\<lambda>src.
       if check_active_server (fi_ip src) (fi_port_client src) s = 0
       then Inr (send_text (Conn fd) ''SOURCE SERVER NOT ACTIVE'' s)
       else
         (case dial_unchecked E (fi_ip src) (fi_port_client src) s of
            (None, s) \<Rightarrow> Inr s
          | (Some source_socket, s) \<Rightarrow>
              andthen (arr_get MAX_FILE_PATH_SIZE (fi_file_path src)) (\<lambda>sp.
              copy_to_dest E fd arg2 source_socket
                (send_text (Peer source_socket) (snprintf BUFFER_SIZE (''READ '' @ sp)) s)))))"

definition handle_command_copy :: "env \<Rightarrow> nat \<Rightarrow> string \<Rightarrow> string \<Rightarrow> nm \<Rightarrow> nm result" where
  "handle_command_copy E fd arg1 arg2 s =
     (case e_getcwd E (trace s) of
        None \<Rightarrow>
          Inr (send_text (Conn fd) (''Server error: Unable to retrieve current working directory'' @ nl) s)
      | Some cwd \<Rightarrow>
          let base_path = snprintf 5000 (cwd @ ''/../storage_server'');
              src_path = snprintf 5100 (base_path @ ''/'' @ arg1);
              dest_path = snprintf 5100 (base_path @ ''/'' @ arg2)
          in (case e_stat E (trace s) src_path of
                None \<Rightarrow> Inr s
              | Some is_source_dir \<Rightarrow>
                  (case e_stat E (trace s) dest_path of
                     None \<Rightarrow> Inr s
                   | Some is_dest_dir \<Rightarrow>
                       if is_dest_dir \<and> is_source_dir then copy_folders E fd arg1 arg2 s
                       else if is_source_dir \<and> \<not> is_dest_dir then
                         Inr (send_text (Conn fd) (''SOURCE IS A DIRECTORY AND DEST IS A FILE'' @ nl) s)
                       else copy_files E fd arg1 arg2 s)))"

text \<open>
  \<open>backup\<close> asks the server of one directory to copy it into a directory of another server,
  without any change to the trie.
\<close>

definition backup :: "env \<Rightarrow> string \<Rightarrow> string \<Rightarrow> nm \<Rightarrow> nm result" where
  "backup E arg1 arg2 s =
     andthen (find_file_info arg1 s) (\<lambda>(source_file_info, s).
     case source_file_info of
       None \<Rightarrow> Inr s
     | Some p \<Rightarrow> andthen (deref s p) (\<lambda>copied.
         (case dial_unchecked E (fi_ip copied) (fi_port_client copied) s of
            (None, s) \<Rightarrow> Inr s
          | (Some source_socket, s) \<Rightarrow>
              andthen (find_file_info arg2 s) (\<lambda>(dest_file_info, s).
              case dest_file_info of
                None \<Rightarrow> Inr s
              | Some q \<Rightarrow> andthen (deref s q) (\<lambda>dest.
                  andthen (copy_folder_request copied dest) (\<lambda>request.
                  andthen (recv_msg E (Peer source_socket)
                            (send_text (Peer source_socket) request s)) (\<lambda>(msg, s).
                  Inr (net_close (Peer source_socket) s))))))))"

section \<open>What a step leaves alone\<close>

text \<open>
  \<open>unchanged\<close>: the paths, the table of servers, the pending writes and what the clients
  were told are the same, and the cache is still coherent with the paths.
  \<open>settled fd\<close>: the same, up to one text for the client on \<open>fd\<close>.
\<close>

definition unchanged :: "nm \<Rightarrow> nm \<Rightarrow> bool" where
  "unchanged s s' \<longleftrightarrow> coherent s' \<and> file_trie s' = file_trie s \<and>
     storage_servers s' = storage_servers s \<and> write_clients s' = write_clients s \<and>
     (\<forall>c. replies (Conn c) s' = replies (Conn c) s)"

definition settled :: "nat \<Rightarrow> nm \<Rightarrow> nm \<Rightarrow> bool" where
  "settled fd s s' \<longleftrightarrow> (\<exists>t. unchanged s t \<and> (s' = t \<or> (\<exists>m. s' = send_text (Conn fd) m t)))"

lemma unchanged_refl: "coherent s \<Longrightarrow> unchanged s s"
  by (simp add: unchanged_def)

lemma unchanged_trans: "unchanged s t \<Longrightarrow> unchanged t u \<Longrightarrow> unchanged s u"
  by (simp add: unchanged_def)

lemma unchanged_coherent: "unchanged s s' \<Longrightarrow> coherent s'"
  by (simp add: unchanged_def)

lemma unchanged_lookup: "unchanged s t \<Longrightarrow> coherent t' \<Longrightarrow> same_but_cache t t' \<Longrightarrow> unchanged s t'"
  by (auto simp: unchanged_def same_but_cacheD same_but_cache_eqs)

lemma unchanged_send: "unchanged s t \<Longrightarrow> unchanged s (send_text (Peer k) m t)"
  by (auto simp: unchanged_def coherent_def)

lemma unchanged_close: "unchanged s t \<Longrightarrow> unchanged s (net_close c t)"
  by (auto simp: unchanged_def coherent_def)

lemma unchanged_dial: "unchanged s t \<Longrightarrow> dial_unchecked E ip port t = (d, t') \<Longrightarrow> unchanged s t'"
  by (auto simp: unchanged_def coherent_def dial_unchecked_fields)

lemma unchanged_recv: "unchanged s t \<Longrightarrow> net_recv E c n t = (r, t') \<Longrightarrow> unchanged s t'"
  by (auto simp: unchanged_def coherent_def recv_fields)

lemma settled_quiet: "unchanged s t \<Longrightarrow> settled fd s t"
  by (auto simp: settled_def)

lemma settled_send: "unchanged s t \<Longrightarrow> settled fd s (send_text (Conn fd) m t)"
  by (auto simp: settled_def)

lemma unchanged_active:
  "unchanged s t \<Longrightarrow> check_active_server ip port t = check_active_server ip port s"
  by (rule check_active_cong) (simp add: unchanged_def)

text \<open>A handler goes on behind a lookup with the record of the trie.\<close>

lemma wlp_lookup:
  assumes un: "unchanged s t" and ok: "path_ok p"
    and none: "\<And>t'. unchanged s t' \<Longrightarrow> info_at (file_trie s) p = None \<Longrightarrow> wlp Q (f (None, t'))"
    and some: "\<And>t' q fi. unchanged s t' \<Longrightarrow> info_at (file_trie s) p = Some fi \<Longrightarrow>
                 deref t' q = Inr fi \<Longrightarrow> wlp Q (f (Some q, t'))"
  shows "wlp Q (andthen (find_file_info p t) f)"
  using unchanged_coherent [OF un] ok
proof (cases rule: lookup_cases)
  case (none t')
  with un show ?thesis
    using assms(3) [OF unchanged_lookup [OF un]] by (simp add: unchanged_def)
next
  case (some q fi t')
  with un show ?thesis
    using assms(4) [OF unchanged_lookup [OF un]] by (simp add: unchanged_def)
qed

lemma wlp_dial:
  assumes "unchanged s t"
    and "\<And>t'. unchanged s t' \<Longrightarrow> wlp Q (f (None, t'))"
    and "\<And>k t'. unchanged s t' \<Longrightarrow> wlp Q (f (Some k, t'))"
  shows "wlp Q (f (dial_unchecked E ip port t))"
  using assms unchanged_dial [OF assms(1), of E ip port]
  by (cases "dial_unchecked E ip port t"; cases "fst (dial_unchecked E ip port t)") auto

section \<open>Collecting a file\<close>

lemma recv_all_unchanged:
  "unchanged s t \<Longrightarrow> recv_all E c acc t = (data, t') \<Longrightarrow> unchanged s t'"
proof (induction E c acc t arbitrary: data t' rule: recv_all.induct)
  case (1 E c acc t)
  obtain r t1 where r: "net_recv E c BUFFER_SIZE t = (r, t1)" by (cases "net_recv E c BUFFER_SIZE t")
  have "unchanged s t1" using 1(2) r by (rule unchanged_recv)
  with 1 r show ?case
    by (subst (asm) (2) recv_all.simps) (auto split: option.splits if_splits)
qed

text \<open>The blocks a stretch of the trace received on a connection.\<close>

fun received_on :: "chan \<Rightarrow> event list \<Rightarrow> string list" where
  "received_on c [] = []"
| "received_on c (Received d bs # es) = (if d = c then bs # received_on c es else received_on c es)"
| "received_on c (_ # es) = received_on c es"

lemma received_on_append: "received_on c (es @ fs) = received_on c es @ received_on c fs"
  by (induction es rule: received_on.induct) auto

text \<open>
  The loop ends for every peer. What it has collected fits the array and is made of the
  blocks received, in order; a block that did not fit is dropped with everything behind it.
\<close>

lemma recv_all_collects_from:
  assumes "length acc < BUFFER_SIZE * 10" and "recv_all E c acc t = (data, t')"
  shows "length data < BUFFER_SIZE * 10 \<and>
    (\<exists>es rest. trace t' = trace t @ es \<and> acc @ concat (received_on c es) = data @ rest \<and>
       (rest = [] \<or> BUFFER_SIZE * 10 \<le> length (data @ rest)))"
  using assms
proof (induction E c acc t arbitrary: data t' rule: recv_all.induct)
  case (1 E c acc t)
  show ?case
  proof (cases "e_recv E (trace t) c")
    case None
    with 1(2,3) show ?thesis
      by (subst (asm) recv_all.simps) (auto simp: net_recv_def emit_def)
  next
    case (Some bs0)
    define bs where "bs = take BUFFER_SIZE bs0"
    define t1 where "t1 = emit (Received c bs) t"
    have recv: "net_recv E c BUFFER_SIZE t = (Some bs, t1)"
      using Some by (simp add: net_recv_def bs_def t1_def)
    consider "bs = []" | "bs \<noteq> []" "length acc + length bs < BUFFER_SIZE * 10"
      | "bs \<noteq> []" "\<not> length acc + length bs < BUFFER_SIZE * 10" by blast
    then show ?thesis
    proof cases
      case 2
      then have "recv_all E c (acc @ bs) t1 = (data, t')"
        using 1(3) recv by (subst (asm) recv_all.simps) simp
      from 1(1) [OF recv [symmetric] refl 2 _ this] 2(2) obtain es rest
        where "length data < BUFFER_SIZE * 10" and "trace t' = trace t1 @ es"
          and "(acc @ bs) @ concat (received_on c es) = data @ rest"
          and "rest = [] \<or> BUFFER_SIZE * 10 \<le> length (data @ rest)" by auto
      then show ?thesis
        by (intro conjI exI [of _ "Received c bs # es"] exI [of _ rest]) (auto simp: t1_def)
    qed (use 1(2,3) recv in \<open>subst (asm) recv_all.simps; auto simp: t1_def\<close>)+
  qed
qed

text \<open>
  C32: The loop that collects a file for COPY ends whatever the peer sends; the data collected
  fits its array and is the concatenation of the blocks received, in order, unless a block did
  not fit, with which collecting stops.
\<close>

lemma recv_all_collects:
  "case recv_all E c [] t of (data, t') \<Rightarrow>
     length data < BUFFER_SIZE * 10 \<and>
     (\<exists>es rest. trace t' = trace t @ es \<and> concat (received_on c es) = data @ rest \<and>
        (rest = [] \<or> BUFFER_SIZE * 10 \<le> length (data @ rest)))"
proof -
  obtain data t' where run: "recv_all E c [] t = (data, t')" by (cases "recv_all E c [] t")
  have "length ([] :: string) < BUFFER_SIZE * 10" by simp
  from recv_all_collects_from [OF this run] show ?thesis by (simp add: run)
qed

lemma recv_all_collects_witness:
  "case recv_all (sample_env\<lparr>e_recv := \<lambda>_ _. None\<rparr>) (Peer 0) [] sample_nm of (data, t') \<Rightarrow>
     length data < BUFFER_SIZE * 10"
  using recv_all_collects [where E = "sample_env\<lparr>e_recv := \<lambda>_ _. None\<rparr>" and c = "Peer 0" and t = sample_nm]
  by (simp add: case_prod_beta)

section \<open>File copies\<close>

lemma copy_wait_unchanged:
  assumes "unchanged s t" shows "wlp (\<lambda>t'. unchanged s t') (copy_wait E c t)"
proof -
  obtain r t1 where r: "net_recv E c BUFFER_SIZE t = (r, t1)" by (cases "net_recv E c BUFFER_SIZE t")
  have "unchanged s t1" using assms r by (rule unchanged_recv)
  with r show ?thesis
    by (cases r) (auto simp: copy_wait_def terminate_def)
qed

lemma copy_data_unchanged:
  assumes "unchanged s t" shows "wlp (\<lambda>t'. unchanged s t') (copy_data E arg2 k j dest t)"
proof (cases "arr_get MAX_FILE_PATH_SIZE (fi_file_path dest)")
  case (Inl e)
  then show ?thesis by (simp add: copy_data_def)
next
  case (Inr dp)
  let ?t1 = "send_text (Peer j) (snprintf BUFFER_SIZE (''COPY_FILE|'' @ dp)) t"
  obtain data t2 where all: "recv_all E (Peer k) [] ?t1 = (data, t2)" by (cases "recv_all E (Peer k) [] ?t1")
  let ?t3 = "if data \<noteq> [] then send_text (Peer j) data t2 else t2"
  have t2: "unchanged s t2" by (rule recv_all_unchanged [OF unchanged_send [OF assms] all])
  then have t3: "unchanged s ?t3" by (simp add: unchanged_send)
  have eq: "copy_data E arg2 k j dest t =
    andthen (copy_wait E (Peer j) ?t3) (\<lambda>s.
        andthen (if strstr '' --sync'' arg2 = None then copy_wait E (Peer j) s else Inr s) (\<lambda>s.
        Inr (net_close (Peer j) (net_close (Peer k) s))))"
    by (simp only: copy_data_def Inr andthen_Inr Let_def all prod.case)
  have last: "wlp (\<lambda>t'. unchanged s t')
      (andthen (if strstr '' --sync'' arg2 = None then copy_wait E (Peer j) u else Inr u) (\<lambda>s.
        Inr (net_close (Peer j) (net_close (Peer k) s))))" if "unchanged s u" for u
    using that wlp_mono [OF copy_wait_unchanged [OF that, of E "Peer j"]]
    by (simp add: unchanged_close)
  show ?thesis
    unfolding eq
    by (subst wlp_andthen, rule wlp_mono [OF copy_wait_unchanged [OF t3]], rule last)
qed

lemma copy_to_dest_settled:
  assumes un: "unchanged s t" and ok: "path_ok arg2"
  shows "wlp (settled fd s) (copy_to_dest E fd arg2 k t)"
  unfolding copy_to_dest_def
proof (rule wlp_lookup [OF un ok], goal_cases)
  case (1 t1)
  then show ?case by (simp add: settled_send)
next
  case (2 t1 q dest)
  have dialled: "wlp (settled fd s)
     (case dial_unchecked E (fi_ip dest) (fi_port_client dest) t1 of
        (None, s) \<Rightarrow> Inr (net_close (Peer k) s)
      | (Some j, s) \<Rightarrow> copy_data E arg2 k j dest s)"
  proof (rule wlp_dial [OF 2(1)], goal_cases)
    case (1 t2)
    then show ?case by (simp add: settled_quiet unchanged_close)
  next
    case (2 j t2)
    have "wlp (settled fd s) (copy_data E arg2 k j dest t2)"
      by (rule wlp_mono [OF copy_data_unchanged [OF 2]]) (rule settled_quiet)
    then show ?case by simp
  qed
  show ?case using 2 dialled by (simp add: settled_send)
qed

lemma copy_files_settled:
  assumes coh: "coherent s" and ok: "path_ok arg1" "path_ok arg2"
  shows "wlp (settled fd s) (copy_files E fd arg1 arg2 s)"
  unfolding copy_files_def
proof (rule wlp_lookup [OF unchanged_refl [OF coh] ok(1)], goal_cases)
  case (1 t1)
  then show ?case by (simp add: settled_send)
next
  case (2 t1 q src)
  have dialled: "wlp (settled fd s)
     (case dial_unchecked E (fi_ip src) (fi_port_client src) t1 of
        (None, s) \<Rightarrow> Inr s
      | (Some k, s) \<Rightarrow>
          andthen (arr_get MAX_FILE_PATH_SIZE (fi_file_path src)) (\<lambda>sp.
          copy_to_dest E fd arg2 k (send_text (Peer k) (snprintf BUFFER_SIZE (''READ '' @ sp)) s)))"
  proof (rule wlp_dial [OF 2(1)], goal_cases)
    case (1 t2)
    then show ?case by (simp add: settled_quiet)
  next
    case (2 k t2)
    have "wlp (settled fd s) (andthen (arr_get MAX_FILE_PATH_SIZE (fi_file_path src)) (\<lambda>sp.
          copy_to_dest E fd arg2 k (send_text (Peer k) (snprintf BUFFER_SIZE (''READ '' @ sp)) t2)))"
      by (rule wlp_bind_any) (rule copy_to_dest_settled [OF unchanged_send [OF 2] ok(2)])
    then show ?case by simp
  qed
  show ?case using 2 dialled by (simp add: settled_send)
qed

section \<open>Folder copies\<close>

lemma recv_msg_fields:
  assumes "recv_msg E c t = Inr (m, t')"
  shows "nm_cache t' = nm_cache t" and "file_trie t' = file_trie t"
    and "storage_servers t' = storage_servers t" and "write_clients t' = write_clients t"
    and "replies d t' = replies d t"
proof -
  from assms obtain old where "arr_get 1024 (e_junk E ''msg'') = Inr old"
    by (auto simp: recv_msg_def andthen_eq_Inr)
  moreover define n where "n = unat (of_nat (length old) - 1 :: 64 word)"
  moreover obtain r t1 where r: "net_recv E c n t = (r, t1)" by (cases "net_recv E c n t")
  ultimately have "t' = t1"
    using assms by (cases r) (auto simp: recv_msg_def terminate_def split: if_splits)
  with recv_fields [OF r] show "nm_cache t' = nm_cache t" and "file_trie t' = file_trie t"
    and "storage_servers t' = storage_servers t" and "write_clients t' = write_clients t"
    and "replies d t' = replies d t" by simp_all
qed

text \<open>
  \<open>folder_copied fd a b s s'\<close>: the sub-trie of \<open>a\<close> was copied to \<open>b\<close> and the client was told,
  while the cache still agrees with the paths as they were before.
\<close>

definition folder_copied :: "nat \<Rightarrow> string \<Rightarrow> string \<Rightarrow> nm \<Rightarrow> nm \<Rightarrow> bool" where
  "folder_copied fd a b s s' \<longleftrightarrow>
     file_trie s' = copy_directory_trie (file_trie s) a b \<and>
     cache_wf (nm_cache s') \<and> cache_view (nm_cache s') \<subseteq>\<^sub>m info_at (file_trie s) \<and>
     storage_servers s' = storage_servers s \<and> write_clients s' = write_clients s \<and>
     (\<forall>c. c \<noteq> fd \<longrightarrow> replies (Conn c) s' = replies (Conn c) s) \<and>
     (\<exists>m. replies (Conn fd) s' = replies (Conn fd) s @ [ArrayMsg 1024 m]) \<and>
     (\<exists>src dst. info_at (file_trie s) a = Some src \<and> info_at (file_trie s) b = Some dst \<and>
        cache_view (nm_cache s') b = Some dst \<and>
        check_active_server (fi_ip src) (fi_port_client src) s \<noteq> 0 \<and>
        check_active_server (fi_ip dst) (fi_port_client dst) s \<noteq> 0)"

text \<open>The part of a folder copy behind the connection to the source server.\<close>

lemma copy_folders_dest:
  assumes un: "unchanged s t" and ok: "path_ok arg2"
    and src: "info_at (file_trie s) arg1 = Some src"
      "check_active_server (fi_ip src) (fi_port_client src) s \<noteq> 0"
  shows "wlp (\<lambda>s'. settled fd s s' \<or> folder_copied fd arg1 arg2 s s')
     (andthen (find_file_info arg2 t) (\<lambda>(dest_file_info, s).
      case dest_file_info of
        None \<Rightarrow> Inr (send_text (Conn fd) (''Dest File not found'' @ nl) s)
      | Some q \<Rightarrow> andthen (deref s q) (\<lambda>dest.
          if check_active_server (fi_ip dest) (fi_port_client dest) s = 0
          then Inr (send_text (Conn fd) ''SERVER NOT ACTIVE'' s)
          else andthen (copy_folder_request src dest) (\<lambda>request.
            let s = s\<lparr>file_trie := copy_directory_trie (file_trie s) arg1 arg2\<rparr>;
                s = send_text (Peer k) request s
            in andthen (recv_msg E (Peer k) s) (\<lambda>(msg, s).
               Inr (net_close (Peer k) (net_send (Conn fd) (ArrayMsg 1024 msg) s)))))))"
  (is "wlp ?Q (andthen _ ?f)")
  using unchanged_coherent [OF un] ok
proof (cases rule: lookup_cases)
  case (none t1)
  have "unchanged s t1" using un none(2,3) by (rule unchanged_lookup)
  with none(1) show ?thesis by (simp add: settled_send)
next
  case (some q dst t1)
  have un1: "unchanged s t1" using un some(2,3) by (rule unchanged_lookup)
  have dst: "info_at (file_trie s) arg2 = Some dst" using some(4) un by (simp add: unchanged_def)
  have cached: "cache_view (nm_cache t1) arg2 = Some dst"
    using find_file_info_caches [OF unchanged_coherent [OF un] ok some(4)] some(1) by simp
  show ?thesis
  proof (cases "check_active_server (fi_ip dst) (fi_port_client dst) s = 0")
    case True
    with some(1,5) un1 show ?thesis by (simp add: settled_send unchanged_active)
  next
    case False
    have told: "?Q (net_close (Peer k) (net_send (Conn fd) (ArrayMsg 1024 msg) t3))"
      if "recv_msg E (Peer k) (send_text (Peer k) request
            (t1\<lparr>file_trie := copy_directory_trie (file_trie t1) arg1 arg2\<rparr>)) = Inr (msg, t3)" for request msg t3
    proof -
      note recv_msg_fields [OF that]
      with un1 src dst cached False show ?thesis
        by (auto simp: folder_copied_def unchanged_def coherent_def net_send_def)
    qed
    have "wlp ?Q (andthen (copy_folder_request src dst) (\<lambda>request.
          andthen (recv_msg E (Peer k) (send_text (Peer k) request
            (t1\<lparr>file_trie := copy_directory_trie (file_trie t1) arg1 arg2\<rparr>))) (\<lambda>(msg, s).
          Inr (net_close (Peer k) (net_send (Conn fd) (ArrayMsg 1024 msg) s)))))"
    proof (rule wlp_bind_any)
      fix request
      let ?m = "recv_msg E (Peer k) (send_text (Peer k) request
            (t1\<lparr>file_trie := copy_directory_trie (file_trie t1) arg1 arg2\<rparr>))"
      show "wlp ?Q (andthen ?m (\<lambda>(msg, s). Inr (net_close (Peer k) (net_send (Conn fd) (ArrayMsg 1024 msg) s))))"
        using told [of request] by (cases ?m) auto
    qed
    with some(1,5) False un1 show ?thesis
      by (simp add: unchanged_active Let_def del: wlp_andthen)
  qed
qed

lemma copy_folders_wlp:
  assumes coh: "coherent s" and ok: "path_ok arg1" "path_ok arg2"
  shows "wlp (\<lambda>s'. settled fd s s' \<or> folder_copied fd arg1 arg2 s s') (copy_folders E fd arg1 arg2 s)"
  (is "wlp ?Q _")
  unfolding copy_folders_def
proof (rule wlp_lookup [OF unchanged_refl [OF coh] ok(1)], goal_cases)
  case (1 t1)
  then show ?case by (simp add: settled_send)
next
  case (2 t1 p src)
  show ?case
  proof (cases "check_active_server (fi_ip src) (fi_port_client src) s = 0")
    case True
    with 2 show ?thesis by (simp add: settled_send unchanged_active)
  next
    case False
    show ?thesis
      using 2(3) False
      apply (simp only: prod.case option.case andthen_Inr unchanged_active [OF 2(1)] if_False)
      apply (rule wlp_dial [OF 2(1)])
       apply (simp add: settled_quiet)
      apply (simp only: prod.case option.case)
      by (rule copy_folders_dest [OF _ ok(2) 2(2) False])
  qed
qed

lemma settled_replies:
  assumes "settled fd s s'" and "coherent s"
  shows "coherent s' \<and> file_trie s' = file_trie s \<and> storage_servers s' = storage_servers s \<and>
    write_clients s' = write_clients s \<and> (\<forall>c. c \<noteq> fd \<longrightarrow> replies (Conn c) s' = replies (Conn c) s) \<and>
    (replies (Conn fd) s' = replies (Conn fd) s \<or> (\<exists>m. replies (Conn fd) s' = replies (Conn fd) s @ [Text m]))"
  using assms by (auto simp: settled_def unchanged_def coherent_def)

text \<open>
  COPY as a whole: nothing but the cache changes and the client gets at most one text, or
  the sub-trie was copied and the client got the answer of the storage server.
\<close>

lemma handle_command_copy_wlp:
  assumes coh: "coherent s" and ok: "path_ok arg1" "path_ok arg2"
  shows "wlp (\<lambda>s'. settled fd s s' \<or> folder_copied fd arg1 arg2 s s') (handle_command_copy E fd arg1 arg2 s)"
proof -
  have told: "settled fd s (send_text (Conn fd) m s)" and quiet: "settled fd s s" for m
    using unchanged_refl [OF coh] by (simp_all add: settled_send settled_quiet)
  have files: "wlp (\<lambda>s'. settled fd s s' \<or> folder_copied fd arg1 arg2 s s') (copy_files E fd arg1 arg2 s)"
    by (rule wlp_mono [OF copy_files_settled [OF coh ok]]) simp
  show ?thesis
    unfolding handle_command_copy_def Let_def
    using told quiet files copy_folders_wlp [OF coh ok]
    by (auto split: option.split)
qed

text \<open>
  A copied folder takes the source's record with it, while the lookup of the destination has
  just cached the old record of the destination: unless the two are equal, cache and paths
  disagree from then on.
\<close>

lemma folder_copied_stale:
  assumes cp: "folder_copied fd a b s s'"
    and src: "info_at (file_trie s) a = Some src" and dst: "info_at (file_trie s) b = Some dst" and ne: "src \<noteq> dst"
  shows "info_at (file_trie s') b = Some src" and "cache_view (nm_cache s') b = Some dst"
    and "\<not> coherent s'"
proof -
  from src obtain n where "find_trie_node (file_trie s) a = Some n"
    by (cases "find_trie_node (file_trie s) a") (auto simp: info_at_def)
  with cp src show at: "info_at (file_trie s') b = Some src"
    by (simp add: folder_copied_def info_at_copy_directory)
  show cached: "cache_view (nm_cache s') b = Some dst" using cp dst by (auto simp: folder_copied_def)
  show "\<not> coherent s'" using at cached ne by (force simp: coherent_def map_le_def dom_def)
qed

section \<open>Backups\<close>

lemma backup_unchanged:
  assumes coh: "coherent s" and ok: "path_ok arg1" "path_ok arg2"
  shows "wlp (unchanged s) (backup E arg1 arg2 s)"
  unfolding backup_def
proof (rule wlp_lookup [OF unchanged_refl [OF coh] ok(1)], goal_cases)
  case (1 t1)
  then show ?case by simp
next
  case (2 t1 p src)
  have ask: "wlp (unchanged s) (andthen (copy_folder_request src dest) (\<lambda>request.
       andthen (recv_msg E (Peer k) (send_text (Peer k) request t)) (\<lambda>(msg, s). Inr (net_close (Peer k) s))))"
    if "unchanged s t" for k dest t
  proof (rule wlp_bind_any)
    fix request
    show "wlp (unchanged s) (andthen (recv_msg E (Peer k) (send_text (Peer k) request t))
            (\<lambda>(msg, s). Inr (net_close (Peer k) s)))"
    proof (cases "recv_msg E (Peer k) (send_text (Peer k) request t)")
      case (Inr mt)
      then obtain m t' where "recv_msg E (Peer k) (send_text (Peer k) request t) = Inr (m, t')" by (cases mt) auto
      with recv_msg_fields [OF this] that show ?thesis by (auto simp: unchanged_def coherent_def)
    qed simp
  qed
  show ?case
    using 2(3)
    apply (simp only: prod.case option.case andthen_Inr)
    apply (rule wlp_dial [OF 2(1)])
     apply simp
    apply (simp only: prod.case option.case)
    by (rule wlp_lookup [OF _ ok(2)], assumption) (use ask in \<open>simp_all del: wlp_andthen\<close>)
qed

section \<open>What COPY does and does not do\<close>

text \<open>
  A folder copy that gets through: the host sees two directories, both records are known and their
  servers are up, the source takes the connection and answers.
\<close>

definition folder_copy_granted :: "env \<Rightarrow> string \<Rightarrow> string \<Rightarrow> nm \<Rightarrow> bool" where
  "folder_copy_granted E a b s \<longleftrightarrow>
     e_getcwd E (trace s) \<noteq> None \<and> (\<forall>p. e_stat E (trace s) p = Some True) \<and>
     (\<exists>src dst. info_at (file_trie s) a = Some src \<and> info_at (file_trie s) b = Some dst \<and>
        check_active_server (fi_ip src) (fi_port_client src) s \<noteq> 0 \<and>
        check_active_server (fi_ip dst) (fi_port_client dst) s \<noteq> 0 \<and>
        length (fi_file_path src) < MAX_FILE_PATH_SIZE \<and> length (fi_file_path dst) < MAX_FILE_PATH_SIZE \<and>
        e_pton E (fi_ip src) \<and>
        (\<forall>tr. e_socket E tr \<and> e_connect E tr (fi_ip src) (htons (fi_port_client src)))) \<and>
     (\<forall>tr k. e_recv E tr (Peer k) \<noteq> None) \<and>
     0 < length (e_junk E ''msg'') \<and> length (e_junk E ''msg'') < 1024"

lemma recv_msg_answers:
  assumes "e_recv E (trace t) c \<noteq> None" and "0 < length (e_junk E ''msg'')" and "length (e_junk E ''msg'') < 1024"
  shows "\<exists>m t'. recv_msg E c t = Inr (m, t')"
proof -
  let ?n = "unat (of_nat (length (e_junk E ''msg'')) - 1 :: 64 word)"
  have "(of_nat (length (e_junk E ''msg'')) - 1 :: 64 word) = of_nat (length (e_junk E ''msg'') - 1)"
    using assms(2) of_nat_diff [of 1 "length (e_junk E ''msg'')", where 'a = "64 word"] by (simp add: Suc_le_eq)
  then have n: "?n < 1024" using assms(3) by (simp add: unat_of_nat)
  from assms(1) obtain bs where "e_recv E (trace t) c = Some bs" by blast
  with n assms(3) show ?thesis by (simp add: recv_msg_def net_recv_def terminate_def)
qed

lemma folder_copy_runs:
  assumes coh: "coherent s" and ok: "path_ok a" "path_ok b" and go: "folder_copy_granted E a b s"
  shows "wp (folder_copied fd a b s) (handle_command_copy E fd a b s)"
proof -
  from go obtain src dst where src: "info_at (file_trie s) a = Some src" "info_at (file_trie s) b = Some dst"
    and act: "check_active_server (fi_ip src) (fi_port_client src) s \<noteq> 0"
      "check_active_server (fi_ip dst) (fi_port_client dst) s \<noteq> 0"
    and fits: "length (fi_file_path src) < MAX_FILE_PATH_SIZE" "length (fi_file_path dst) < MAX_FILE_PATH_SIZE"
    and net: "e_pton E (fi_ip src)" "\<And>tr. e_socket E tr" "\<And>tr. e_connect E tr (fi_ip src) (htons (fi_port_client src))"
    by (auto simp: folder_copy_granted_def)
  obtain p t1 where p: "find_file_info a s = Inr (Some p, t1)" "deref t1 p = Inr src" "unchanged s t1"
    using find_file_info_wp [OF coh ok(1)] src(1) unchanged_lookup [OF unchanged_refl [OF coh]]
    by (force simp: wp_iff)
  obtain k t2 where k: "dial_unchecked E (fi_ip src) (fi_port_client src) t1 = (Some k, t2)"
    using net by (simp add: dial_unchecked_def Let_def)
  have t2: "unchanged s t2" using p(3) k by (rule unchanged_dial)
  then have "info_at (file_trie t2) b = Some dst" using src by (simp add: unchanged_def)
  then obtain q t3 where q: "find_file_info b t2 = Inr (Some q, t3)" "deref t3 q = Inr dst" "unchanged s t3"
    using find_file_info_wp [OF unchanged_coherent [OF t2] ok(2)] unchanged_lookup [OF t2]
    by (force simp: wp_iff)
  obtain request where r: "copy_folder_request src dst = Inr request"
    using fits by (simp add: copy_folder_request_def)
  obtain m t4 where m: "recv_msg E (Peer k) (send_text (Peer k) request
      (t3\<lparr>file_trie := copy_directory_trie (file_trie t3) a b\<rparr>)) = Inr (m, t4)"
    using recv_msg_answers go unfolding folder_copy_granted_def by blast
  have run: "handle_command_copy E fd a b s = Inr (net_close (Peer k) (net_send (Conn fd) (ArrayMsg 1024 m) t4))"
    using go p q k r m act
    by (auto simp: folder_copy_granted_def handle_command_copy_def copy_folders_def Let_def unchanged_active)
  have "replies (Conn fd) (net_close (Peer k) (net_send (Conn fd) (ArrayMsg 1024 m) t4)) =
      replies (Conn fd) s @ [ArrayMsg 1024 m]"
    using recv_msg_fields [OF m] q(3) by (simp add: unchanged_def)
  then have "\<not> settled fd s (net_close (Peer k) (net_send (Conn fd) (ArrayMsg 1024 m) t4))"
    using settled_replies [OF _ coh] by fastforce
  with handle_command_copy_wlp [OF coh ok, of fd E] show ?thesis by (simp add: run)
qed

text \<open>The records below \<open>a\<close> are now also those below \<open>b\<close>, the client has an answer, the cache is stale.\<close>

definition records_copied :: "nat \<Rightarrow> string \<Rightarrow> string \<Rightarrow> nm \<Rightarrow> nm \<Rightarrow> bool" where
  "records_copied fd a b s s' \<longleftrightarrow>
     (\<forall>q. info_at (file_trie s') q =
        (if prefix b q then info_at (file_trie s) (a @ drop (length b) q) else info_at (file_trie s) q)) \<and>
     (\<exists>m. replies (Conn fd) s' = replies (Conn fd) s @ [ArrayMsg 1024 m]) \<and>
     (info_at (file_trie s) a \<noteq> info_at (file_trie s) b \<longrightarrow> \<not> coherent s')"

lemma folder_copied_records:
  assumes cp: "folder_copied fd a b s s'"
  shows "records_copied fd a b s s'"
proof -
  from cp obtain src dst where rec: "info_at (file_trie s) a = Some src" "info_at (file_trie s) b = Some dst"
    by (auto simp: folder_copied_def)
  then obtain n where n: "find_trie_node (file_trie s) a = Some n"
    by (cases "find_trie_node (file_trie s) a") (auto simp: info_at_def)
  show ?thesis
    using cp folder_copied_stale(3) [OF cp rec] rec
    by (simp add: records_copied_def folder_copied_def info_at_copy_directory [OF n])
qed

text \<open>
  C26: COPY never touches the table of servers, the pending writes or another client. It either
  changes nothing but the cache and sends its client at most one text, or it has copied the records
  of every path below the source to the destination, and then the cache disagrees with the paths
  unless source and destination had equal records. The second case does occur: always when both
  paths are directories of servers that are up and the source server answers.
\<close>

lemma copy_outcome:
  assumes coh: "coherent s" and ok: "path_ok a" "path_ok b"
  shows "wlp (\<lambda>s'. storage_servers s' = storage_servers s \<and> write_clients s' = write_clients s \<and>
      (\<forall>c. c \<noteq> fd \<longrightarrow> replies (Conn c) s' = replies (Conn c) s) \<and>
      ((coherent s' \<and> file_trie s' = file_trie s \<and>
        (replies (Conn fd) s' = replies (Conn fd) s \<or>
         (\<exists>m. replies (Conn fd) s' = replies (Conn fd) s @ [Text m]))) \<or> records_copied fd a b s s'))
     (handle_command_copy E fd a b s) \<and>
   (folder_copy_granted E a b s \<longrightarrow> wp (records_copied fd a b s) (handle_command_copy E fd a b s))"
proof (intro conjI impI)
  show "wp (records_copied fd a b s) (handle_command_copy E fd a b s)" if "folder_copy_granted E a b s"
    using folder_copy_runs [OF coh ok that] by (rule wp_mono) (rule folder_copied_records)
next
  show "wlp (\<lambda>s'. storage_servers s' = storage_servers s \<and> write_clients s' = write_clients s \<and>
      (\<forall>c. c \<noteq> fd \<longrightarrow> replies (Conn c) s' = replies (Conn c) s) \<and>
      ((coherent s' \<and> file_trie s' = file_trie s \<and>
        (replies (Conn fd) s' = replies (Conn fd) s \<or>
         (\<exists>m. replies (Conn fd) s' = replies (Conn fd) s @ [Text m]))) \<or> records_copied fd a b s s'))
     (handle_command_copy E fd a b s)"
  proof (rule wlp_mono [OF handle_command_copy_wlp [OF coh ok]], erule disjE)
    fix s' assume "settled fd s s'"
    from settled_replies [OF this coh] show "storage_servers s' = storage_servers s \<and>
        write_clients s' = write_clients s \<and> (\<forall>c. c \<noteq> fd \<longrightarrow> replies (Conn c) s' = replies (Conn c) s) \<and>
        ((coherent s' \<and> file_trie s' = file_trie s \<and> (replies (Conn fd) s' = replies (Conn fd) s \<or>
         (\<exists>m. replies (Conn fd) s' = replies (Conn fd) s @ [Text m]))) \<or> records_copied fd a b s s')"
      by simp
  next
    fix s' assume cp: "folder_copied fd a b s s'"
    with folder_copied_records [OF cp] show "storage_servers s' = storage_servers s \<and>
        write_clients s' = write_clients s \<and> (\<forall>c. c \<noteq> fd \<longrightarrow> replies (Conn c) s' = replies (Conn c) s) \<and>
        ((coherent s' \<and> file_trie s' = file_trie s \<and> (replies (Conn fd) s' = replies (Conn fd) s \<or>
         (\<exists>m. replies (Conn fd) s' = replies (Conn fd) s @ [Text m]))) \<or> records_copied fd a b s s')"
      by (simp add: folder_copied_def)
  qed
qed

lemma copy_outcome_witness:
  "wp (\<lambda>s'. info_at (file_trie s') ''d/f.c'' = Some dir_info \<and> info_at (file_trie s') ''d'' = Some dir_info \<and>
        \<not> coherent s') (handle_command_copy sample_env 4 ''d'' ''d/f.c'' sample_nm)"
proof -
  have "folder_copy_granted sample_env ''d'' ''d/f.c'' sample_nm"
    by (simp add: folder_copy_granted_def) (simp add: sample_env_def)
  then have "wp (records_copied 4 ''d'' ''d/f.c'' sample_nm)
      (handle_command_copy sample_env 4 ''d'' ''d/f.c'' sample_nm)"
    using copy_outcome [OF coherent_sample, of "''d''" "''d/f.c''" 4 sample_env] by simp
  then show ?thesis
    by (rule wp_mono) (auto simp: records_copied_def leaf_info_def dir_info_def)
qed

text \<open>
  Copying between files of two known, active servers answers the client with nothing at all
  once both connections are open.
\<close>

lemma copy_file_unanswered:
  assumes coh: "coherent s" and ok: "path_ok a" "path_ok b"
    and src: "info_at (file_trie s) a = Some src"
      "check_active_server (fi_ip src) (fi_port_client src) s \<noteq> 0"
    and dst: "info_at (file_trie s) b = Some dst"
      "check_active_server (fi_ip dst) (fi_port_client dst) s \<noteq> 0"
  shows "wlp (\<lambda>s'. \<forall>c. replies (Conn c) s' = replies (Conn c) s) (copy_files E fd a b s)"
proof -
  have "wlp (unchanged s) (copy_files E fd a b s)"
    unfolding copy_files_def
  proof (rule wlp_lookup [OF unchanged_refl [OF coh] ok(1)], goal_cases)
    case (1 t)
    with src show ?case by simp
  next
    case (2 t q fi)
    have fi: "fi = src" using 2(2) src by simp
    have act: "check_active_server (fi_ip src) (fi_port_client src) t \<noteq> 0"
      using src(2) by (simp add: unchanged_active [OF 2(1)])
    have dest: "wlp (unchanged s) (copy_to_dest E fd b k u)" if "unchanged s u" for k u
      unfolding copy_to_dest_def
    proof (rule wlp_lookup [OF that ok(2)], goal_cases)
      case (1 v)
      with dst show ?case by simp
    next
      case (2 v q' fi')
      have fi': "fi' = dst" using 2(2) dst by simp
      have act': "check_active_server (fi_ip dst) (fi_port_client dst) v \<noteq> 0"
        using dst(2) by (simp add: unchanged_active [OF 2(1)])
      have "wlp (unchanged s)
         (case dial_unchecked E (fi_ip dst) (fi_port_client dst) v of
            (None, s) \<Rightarrow> Inr (net_close (Peer k) s)
          | (Some j, s) \<Rightarrow> copy_data E b k j dst s)"
        by (rule wlp_dial [OF 2(1)]) (simp_all add: unchanged_close copy_data_unchanged)
      with 2(3) act' show ?case by (simp add: fi')
    qed
    have "wlp (unchanged s)
       (case dial_unchecked E (fi_ip src) (fi_port_client src) t of
          (None, s) \<Rightarrow> Inr s
        | (Some k, s) \<Rightarrow> andthen (arr_get MAX_FILE_PATH_SIZE (fi_file_path src)) (\<lambda>sp.
            copy_to_dest E fd b k (send_text (Peer k) (snprintf BUFFER_SIZE (''READ '' @ sp)) s)))"
      by (rule wlp_dial [OF 2(1)])
        (simp, unfold prod.case option.case, rule wlp_bind_any, rule dest [OF unchanged_send])
    with 2(3) act show ?case by (simp add: fi del: wlp_andthen)
  qed
  then show ?thesis by (rule wlp_mono) (simp add: unchanged_def)
qed

lemma copy_file_unanswered_witness:
  "wlp (\<lambda>s'. replies (Conn 4) s' = []) (copy_files sample_env 4 ''d'' ''d/f.c'' sample_nm)"
  using copy_file_unanswered [OF coherent_sample, of "''d''" "''d/f.c''" dir_info leaf_info sample_env 4]
  by (auto elim!: wlp_mono)

end
