(* ===== verification/Handler_Logic.thy ===== *)
theory Handler_Logic
  imports NM_Copy
begin

text \<open>
  What client commands may do to the tables, proved once for all handlers.

  A relation between two memories that every elementary operation respects is respected by
  every handler: the locale states the elementary operations as its assumptions, and the
  handlers are walked through once, inside it.
\<close>

section \<open>Relations the handlers respect\<close>

locale io_relation =
  fixes R :: "nm \<Rightarrow> nm \<Rightarrow> bool"
  assumes R_refl: "R s s"
    and R_trans: "R s t \<Longrightarrow> R t u \<Longrightarrow> R s u"
    and R_trace: "R s (s\<lparr>trace := tr\<rparr>)"
    and R_cache: "R s (s\<lparr>nm_cache := c\<rparr>)"
    and R_trie: "R s (s\<lparr>file_trie := x\<rparr>)"
begin

lemma R_emit: "R s t \<Longrightarrow> R s (emit ev t)"
  unfolding emit_def by (rule R_trans [OF _ R_trace])

lemma R_send: "R s t \<Longrightarrow> R s (net_send c p t)"
  unfolding net_send_def by (rule R_emit)

lemma R_text: "R s t \<Longrightarrow> R s (send_text c p t)"
  unfolding send_text_def by (rule R_send)

lemma R_close: "R s t \<Longrightarrow> R s (net_close c t)"
  unfolding net_close_def by (rule R_emit)

lemma R_log: "R s t \<Longrightarrow> R s (insert_log E ty i p r d st t)"
  by (simp add: insert_log_def R_emit)

lemma R_paths: "R s t \<Longrightarrow> R s (t\<lparr>file_trie := x\<rparr>)"
  by (rule R_trans [OF _ R_trie])

lemma R_recall: "R s t \<Longrightarrow> R s (t\<lparr>nm_cache := x\<rparr>)"
  by (rule R_trans [OF _ R_cache])

lemma R_dial: "R s t \<Longrightarrow> dial E ip port t = (d, t') \<Longrightarrow> R s t'"
  by (auto simp: dial_def R_emit split: if_splits)

lemma R_dial_unchecked: "R s t \<Longrightarrow> dial_unchecked E ip port t = (d, t') \<Longrightarrow> R s t'"
  by (auto simp: dial_unchecked_def Let_def R_emit split: if_splits)

lemma R_recv: "R s t \<Longrightarrow> net_recv E c n t = (r, t') \<Longrightarrow> R s t'"
  by (auto simp: net_recv_def R_emit split: option.splits)

lemma R_lookup: "R s t \<Longrightarrow> find_file_info p t = Inr (r, t') \<Longrightarrow> R s t'"
  by (auto simp: find_file_info_cached andthen_eq_Inr R_recall split: if_splits option.splits)

lemma wlp_dial_case:
  assumes "R s t" and "\<And>d t'. R s t' \<Longrightarrow> wlp Q (f d t')"
  shows "wlp Q (case dial E ip port t of (d, t') \<Rightarrow> f d t')"
  using R_dial [OF assms(1), of E ip port] assms(2) by (cases "dial E ip port t") auto

lemma wlp_dial_unchecked_case:
  assumes "R s t" and "\<And>d t'. R s t' \<Longrightarrow> wlp Q (f d t')"
  shows "wlp Q (case dial_unchecked E ip port t of (d, t') \<Rightarrow> f d t')"
  using R_dial_unchecked [OF assms(1), of E ip port] assms(2) by (cases "dial_unchecked E ip port t") auto

lemma wlp_recv_case:
  assumes "R s t" and "\<And>r t'. R s t' \<Longrightarrow> wlp Q (f r t')"
  shows "wlp Q (case net_recv E c n t of (r, t') \<Rightarrow> f r t')"
  using R_recv [OF assms(1), of E c n] assms(2) by (cases "net_recv E c n t") auto

lemma wlp_lookup_bind:
  assumes "R s t" and "\<And>r t'. R s t' \<Longrightarrow> wlp Q (f (r, t'))"
  shows "wlp Q (andthen (find_file_info p t) f)"
  using R_lookup [OF assms(1), of p] assms(2) by (auto simp: wlp_iff andthen_eq_Inr)

lemma wlp_directory_bind:
  assumes "R s t" and "\<And>r t'. R s t' \<Longrightarrow> wlp Q (f (r, t'))"
  shows "wlp Q (andthen (find_directory_info p t) f)"
  unfolding find_directory_info_eq using assms by (rule wlp_lookup_bind)

lemma wlp_pair_bind:
  assumes "wlp (\<lambda>(r, t). R s t) m" and "\<And>r t. R s t \<Longrightarrow> wlp Q (f (r, t))"
  shows "wlp Q (andthen m f)"
  using assms by (auto simp: wlp_iff andthen_eq_Inr)

lemma wlp_state_bind:
  assumes "wlp (R s) m" and "\<And>t. R s t \<Longrightarrow> wlp Q (f t)"
  shows "wlp Q (andthen m f)"
  using assms by (auto simp: wlp_iff andthen_eq_Inr)

lemma wlp_from: "R s t \<Longrightarrow> wlp (R t) m \<Longrightarrow> wlp (R s) m"
  by (erule wlp_mono) (rule R_trans)

lemma wlp_pair_from: "R s t \<Longrightarrow> wlp (\<lambda>(r, u). R t u) m \<Longrightarrow> wlp (\<lambda>(r, u). R s u) m"
  by (erule wlp_mono) (auto intro: R_trans)

lemma wlp_done: "R s t \<Longrightarrow> wlp (R s) (Inr t)"
  by simp

lemma wlp_pair_done: "R s t \<Longrightarrow> wlp (\<lambda>(r, u). R s u) (Inr (r, t))"
  by simp

lemma R_if: "R s t \<Longrightarrow> R s u \<Longrightarrow> R s (if b then t else u)"
  by simp

lemmas R_io = R_refl R_text R_send R_close R_log R_paths R_recall R_emit

lemmas walk = wlp_done wlp_pair_done wlp_dial_case wlp_dial_unchecked_case wlp_recv_case
  wlp_lookup_bind wlp_directory_bind wlp_option wlp_dialled wlp_if_split

lemma handle_command_info_R: "wlp (R s) (handle_command_info E fd arg1 s)"
  unfolding handle_command_info_def
  by (assumption | rule walk wlp_bind_any R_io | simp only: prod.case)+

lemma handle_command_stream_R: "wlp (R s) (handle_command_stream E fd arg1 s)"
  unfolding handle_command_stream_def Let_def
  by (assumption | rule walk wlp_bind_any R_io wlp_Inl | simp only: prod.case)+

lemma recv_msg_R: "R s t \<Longrightarrow> wlp (\<lambda>(m, t'). R s t') (recv_msg E c t)"
  unfolding recv_msg_def
  by (assumption | rule walk wlp_bind_any R_io wlp_Inl | simp only: prod.case)+

lemma recv_all_R: "R s t \<Longrightarrow> recv_all E c acc t = (data, t') \<Longrightarrow> R s t'"
proof (induction E c acc t arbitrary: data t' rule: recv_all.induct)
  case (1 E c acc t)
  obtain r t1 where r: "net_recv E c BUFFER_SIZE t = (r, t1)" by (cases "net_recv E c BUFFER_SIZE t")
  have "R s t1" using 1(2) r by (rule R_recv)
  with 1 r show ?case
    by (subst (asm) (2) recv_all.simps) (auto split: option.splits if_splits)
qed

lemma copy_wait_R: "R s t \<Longrightarrow> wlp (R s) (copy_wait E c t)"
  unfolding copy_wait_def
  by (assumption | rule walk wlp_bind_any R_io wlp_Inl | simp only: prod.case)+

lemma wlp_recv_all_case:
  assumes "R s t" and "\<And>d t'. R s t' \<Longrightarrow> wlp Q (f d t')"
  shows "wlp Q (case recv_all E c acc t of (d, t') \<Rightarrow> f d t')"
  using recv_all_R [OF assms(1)] assms(2) by (cases "recv_all E c acc t") auto

lemma wlp_wait_bind:
  assumes "R s t" and "\<And>t'. R s t' \<Longrightarrow> wlp Q (f t')"
  shows "wlp Q (andthen (copy_wait E c t) f)"
  using copy_wait_R [OF assms(1)] assms(2) by (rule wlp_state_bind)

lemma copy_data_R: "R s t \<Longrightarrow> wlp (R s) (copy_data E arg2 k j dest t)"
  unfolding copy_data_def Let_def
  by (assumption | rule wlp_recv_all_case wlp_wait_bind wlp_if_bind wlp_Inr_bind R_if walk wlp_bind_any R_io
      | simp only: prod.case)+

lemma wlp_dest_bind: "R s t \<Longrightarrow> wlp (R s) (copy_to_dest E fd arg2 k t)"
  unfolding copy_to_dest_def
  by (assumption | rule walk wlp_bind_any R_io copy_data_R | simp only: prod.case)+

lemma copy_files_R: "wlp (R s) (copy_files E fd arg1 arg2 s)"
  unfolding copy_files_def
  by (assumption | rule walk wlp_dest_bind wlp_bind_any R_io | simp only: prod.case)+

lemmas walk_copy = wlp_pair_bind [OF recv_msg_R]

lemma backup_R: "wlp (R s) (backup E arg1 arg2 s)"
  unfolding backup_def
  by (assumption | rule walk walk_copy wlp_bind_any R_io | simp only: prod.case)+

lemma copy_folders_R: "wlp (R s) (copy_folders E fd arg1 arg2 s)"
  unfolding copy_folders_def Let_def
  by (assumption | rule walk walk_copy wlp_bind_any R_io | simp only: prod.case)+

lemma handle_command_copy_R: "wlp (R s) (handle_command_copy E fd arg1 arg2 s)"
  unfolding handle_command_copy_def Let_def
  by (assumption | rule walk wlp_bind_any R_io copy_folders_R copy_files_R | simp only: prod.case)+

end

text \<open>
  The handlers that touch the table of servers or the pending writes need three more laws.
\<close>

locale table_relation = io_relation +
  assumes R_cut: "cut_paths i s = Inr (t, s') \<Longrightarrow> i < server_count s \<Longrightarrow> R s s'"
    and R_home: "getaccesspath ip port s = (r, s') \<Longrightarrow> R s s'"
    and R_queue: "addcommand ip port command s = Inr s' \<Longrightarrow> R s s'"
    and R_write: "write_client_count s < MAX_CONNECTIONS \<Longrightarrow> ci_status c = 0 \<Longrightarrow> ci_active c = 1 \<Longrightarrow>
      R s (s\<lparr>write_clients := write_clients s @ [c]\<rparr>)"
begin

lemma wlp_home_bind:
  assumes "R s t" and "\<And>a t'. R s t' \<Longrightarrow> wlp Q (f (a, t'))"
  shows "wlp Q (andthen (backup_home ip port arg1 t) f)"
proof (cases "server_index ip port t")
  case None
  with assms show ?thesis by (simp add: backup_home_def)
next
  case (Some i)
  then have "i < server_count t" by (simp add: server_index_Some)
  then have "R s u" if "cut_paths i t = Inr (a, u)" for a u
    using R_trans [OF assms(1) R_cut [OF that]] by simp
  with Some assms(2) show ?thesis
    by (cases "cut_paths i t") (auto simp: backup_home_def)
qed

lemma wlp_queue_bind:
  assumes "R s t" and "\<And>t'. R s t' \<Longrightarrow> wlp Q (f t')"
  shows "wlp Q (andthen (addcommand ip port command t) f)"
  using assms(2) R_trans [OF assms(1) R_queue] by (cases "addcommand ip port command t") auto

lemma redirect_R: "R s t \<Longrightarrow> wlp (\<lambda>(r, u). R s u) (redirect ip port arg1 t)"
  by (auto simp: redirect_def wlp_iff andthen_eq_Inr intro: R_trans R_home split: prod.splits option.splits)

lemma read_target_R: "R s t \<Longrightarrow> wlp (\<lambda>(r, u). R s u) (read_target fi arg1 t)"
  unfolding read_target_def Let_def
  by (assumption | rule walk wlp_pair_bind [OF redirect_R] | simp only: prod.case)+

lemma handle_command_read_R: "wlp (R s) (handle_command_read E fd arg1 s)"
  unfolding handle_command_read_def
  by (assumption | rule walk wlp_pair_bind [OF read_target_R] wlp_bind_any R_io | simp only: prod.case)+

lemma handle_command_write_R: "wlp (\<lambda>(w, s'). R s s') (handle_command_write E cc command arg1 s)"
proof -
  have add: "R s (t\<lparr>write_clients := write_clients t @
        [\<lparr>ci_ip = i, ci_port = p, ci_ss_ip = si, ci_ss_port = sp, ci_file_path = f, ci_status = 0, ci_active = 1\<rparr>]\<rparr>)"
    if "R s t" "write_client_count t < MAX_CONNECTIONS" for t i p si sp f
    by (rule R_trans [OF that(1) R_write [OF that(2)]]) simp_all
  show ?thesis
    unfolding handle_command_write_def Let_def
    by (assumption | rule walk wlp_bind_any R_io add | simp only: prod.case)+
qed

lemma create_exchange_R: "R s t \<Longrightarrow> wlp (\<lambda>(g, u). R s u) (create_exchange E fd ip port command2 t)"
  unfolding create_exchange_def Let_def
  by (assumption | rule walk wlp_bind_any R_if R_io | simp only: prod.case)+

lemma create_backup_R: "R s t \<Longrightarrow> wlp (\<lambda>(g, u). R s u) (create_backup E fd command ip port arg1 t)"
  unfolding create_backup_def Let_def
  by (assumption | rule walk wlp_home_bind wlp_queue_bind wlp_pair_bind [OF create_exchange_R] wlp_bind_any
      | simp only: prod.case)+

lemma create_forward_R:
  "R s t \<Longrightarrow> wlp (R s) (create_forward E fd command arg1 full_path dir nm_port b1 b2 t)"
  unfolding create_forward_def Let_def
  by (assumption | rule walk wlp_pair_bind [OF create_backup_R] wlp_bind_any R_if R_io | simp only: prod.case)+

lemma handle_command_create_R: "wlp (R s) (handle_command_create E fd command arg1 arg2 s)"
  unfolding handle_command_create_def Let_def
  by (assumption | simp only: prod.case | rule walk wlp_bind_any R_io create_forward_R wlp_prod)+

lemma delete_metadata_R: "R s t \<Longrightarrow> wlp (R s) (delete_metadata fip t)"
  unfolding delete_metadata_def Let_def
  by (assumption | rule walk wlp_bind_any R_io)+

lemma delete_exchange_R: "R s t \<Longrightarrow> delete_exchange E fd ip port command2 t = (g, u) \<Longrightarrow> R s u"
  by (auto simp: delete_exchange_def split: prod.splits dialled.splits intro: R_io R_dial)

lemma delete_backup_R: "R s t \<Longrightarrow> wlp (\<lambda>(g, u). R s u) (delete_backup E fd command ip port arg1 t)"
proof -
  have ex: "wlp Q (case delete_exchange E fd ip port c2 u of (g, v) \<Rightarrow> f g v)"
    if "R s u" "\<And>g v. R s v \<Longrightarrow> wlp Q (f g v)" for Q u c2 and f :: "bool \<Rightarrow> nm \<Rightarrow> (string option \<times> nm) result"
    using that delete_exchange_R [OF that(1)] by (cases "delete_exchange E fd ip port c2 u") auto
  show "R s t \<Longrightarrow> ?thesis"
    unfolding delete_backup_def Let_def
    by (assumption | rule walk wlp_home_bind wlp_queue_bind ex wlp_bind_any | simp only: prod.case)+
qed

lemma delete_forward_R:
  "R s t \<Longrightarrow> wlp (R s) (delete_forward E fd command arg1 fip fi nm_port b1 b2 t)"
  unfolding delete_forward_def Let_def
  by (assumption | rule walk wlp_pair_bind [OF delete_backup_R] wlp_state_bind [OF delete_metadata_R]
      wlp_bind_any R_io | simp only: prod.case)+

lemma handle_command_delete_R: "wlp (R s) (handle_command_delete E fd command arg1 s)"
  unfolding handle_command_delete_def Let_def
  by (assumption | simp only: prod.case | rule walk wlp_bind_any R_io delete_forward_R wlp_prod)+

end

section \<open>Copies leave the tables alone\<close>

definition same_tables :: "nm \<Rightarrow> nm \<Rightarrow> bool" where
  "same_tables s s' \<longleftrightarrow> storage_servers s' = storage_servers s \<and> write_clients s' = write_clients s"

interpretation tables: io_relation same_tables
  by unfold_locales (simp_all add: same_tables_def)

section \<open>Client commands only queue commands and append waiting writes\<close>

text \<open>
  What a client command may do to a row: cut the path list behind its first path, and append
  to the queue. What it may do to the tables: that to the rows, and append fresh writes,
  within the bounds of their array.
\<close>

definition row_kept :: "StorageServerInfo \<Rightarrow> StorageServerInfo \<Rightarrow> bool" where
  "row_kept x y \<longleftrightarrow> home y = home x \<and>
     (\<exists>q. y = x\<lparr>ss_accessible_paths := ss_accessible_paths y, ss_commands := ss_commands x @ q\<rparr>)"

definition tables_ok :: "nm \<Rightarrow> bool" where
  "tables_ok s \<longleftrightarrow> write_client_count s \<le> MAX_CONNECTIONS"

definition client_effect :: "nm \<Rightarrow> nm \<Rightarrow> bool" where
  "client_effect s s' \<longleftrightarrow> list_all2 row_kept (storage_servers s) (storage_servers s') \<and>
     (\<exists>ws. write_clients s' = write_clients s @ ws \<and>
           list_all (\<lambda>c. ci_status c = 0 \<and> ci_active c = 1) ws) \<and>
     (tables_ok s \<longrightarrow> tables_ok s')"

lemma row_kept_refl [simp]: "row_kept x x"
  by (auto simp: row_kept_def intro: exI [of _ "[]"])

lemma row_kept_trans: "row_kept x y \<Longrightarrow> row_kept y z \<Longrightarrow> row_kept x z"
  by (cases x; cases y; cases z) (auto simp: row_kept_def)

lemma row_kept_same_server: "same_server x y \<Longrightarrow> row_kept x y"
  by (cases x; cases y) (auto simp: row_kept_def same_server_def)

lemma row_kept_queue: "row_kept x (x\<lparr>ss_commands := ss_commands x @ [c]\<rparr>)"
  by (cases x) (auto simp: row_kept_def home_def)

lemma client_effect_same_server:
  assumes "list_all2 same_server (storage_servers s) (storage_servers s')" and "write_clients s' = write_clients s"
  shows "client_effect s s'"
  using assms
  by (auto simp: client_effect_def tables_ok_def intro: list_all2_mono row_kept_same_server)

lemma list_all2_update:
  assumes "\<And>x. P x x" and "i < length xs \<Longrightarrow> P (xs ! i) v"
  shows "list_all2 P xs (xs[i := v])"
  using assms by (auto simp: list_all2_conv_all_nth nth_update_if)

lemma cut_paths_same:
  assumes "cut_paths i s = Inr (t, s')" and "i < server_count s"
  shows "list_all2 same_server (storage_servers s) (storage_servers s')"
  using assms(1) home_cut
  by (auto simp: cut_paths_def Let_def intro!: list_all2_update split: prod.splits option.splits)

lemma addcommand_effect:
  assumes "addcommand ip port command s = Inr s'"
  shows "client_effect s s'"
proof (cases "server_index ip port s")
  case None
  with assms show ?thesis by (simp add: addcommand_def client_effect_same_server list_all2_refl)
next
  case (Some i)
  let ?x = "storage_servers s ! i"
  from Some assms have s': "s' = s\<lparr>storage_servers := (storage_servers s)[i := ?x\<lparr>ss_commands := ss_commands ?x @ [command]\<rparr>]\<rparr>"
    by (auto simp: addcommand_def Let_def andthen_eq_Inr strcpy_def split: if_splits)
  then show ?thesis
    by (auto simp: client_effect_def tables_ok_def row_kept_queue intro: list_all2_update)
qed

interpretation effect: table_relation client_effect
proof
  show "client_effect s s" for s
    by (simp add: client_effect_same_server list_all2_refl)
  show "client_effect s u" if "client_effect s t" "client_effect t u" for s t u
    using that unfolding client_effect_def
    by (auto intro: list_all2_trans [of row_kept row_kept row_kept] row_kept_trans)
  show "client_effect s (s\<lparr>trace := tr\<rparr>)" for s tr
    by (simp add: client_effect_same_server list_all2_refl)
  show "client_effect s (s\<lparr>nm_cache := c\<rparr>)" for s c
    by (simp add: client_effect_same_server list_all2_refl)
  show "client_effect s (s\<lparr>file_trie := x\<rparr>)" for s x
    by (simp add: client_effect_same_server list_all2_refl)
  show "client_effect s s'" if "cut_paths i s = Inr (t, s')" "i < server_count s" for i s t s'
    using cut_paths_same [OF that] cut_paths_frame [of s i] that(1)
    by (simp add: client_effect_same_server)
  show "client_effect s s'" if "getaccesspath ip port s = (r, s')" for ip port s r s'
    using that getaccesspath_from_same [of ip port "storage_servers s"]
    by (auto simp: getaccesspath_def intro!: client_effect_same_server split: prod.splits)
  show "client_effect s s'" if "addcommand ip port command s = Inr s'" for ip port command s s'
    using that by (rule addcommand_effect)
  show "client_effect s (s\<lparr>write_clients := write_clients s @ [c]\<rparr>)"
    if "write_client_count s < MAX_CONNECTIONS" "ci_status c = 0" "ci_active c = 1" for s c
    using that by (auto simp: client_effect_def tables_ok_def list_all2_refl)
qed

end
