(* ===== verification/NM_Register.thy ===== *)
theory NM_Register
  imports Handler_Logic
begin

text \<open>
  \<open>handle_storage_server\<close> and \<open>replay_commands\<close> of \<open>naming_server.c\<close>: a connection of a
  storage server either registers it (and then carries its heartbeats until it is lost), or
  reports one finished write, or hands over written data for the backups.

  The handler is split where it blocks: \<open>storage_message\<close> is everything up to the heartbeat
  loop, \<open>heartbeat\<close> one round of that loop, and \<open>server_lost\<close> the code behind it.
\<close>

section \<open>Replaying the queue of a server\<close>

text \<open>The inner loop; the flag is \<^const>\<open>False\<close> when it executed a \<open>return\<close>.\<close>

fun replay_queue :: "env \<Rightarrow> string \<Rightarrow> int \<Rightarrow> string list \<Rightarrow> nm \<Rightarrow> (bool \<times> nm) result" where
  "replay_queue E ip port [] s = Inr (True, s)"
| "replay_queue E ip port (command # commands) s =
     (case dial E ip port s of
        (Dialled k, s) \<Rightarrow>
          (case net_recv E (Peer k) BUFFER_SIZE (send_text (Peer k) command s) of
             (None, s) \<Rightarrow> Inr (False, net_close (Peer k) s)
           | (Some bs, s) \<Rightarrow> andthen (terminate BUFFER_SIZE bs) (\<lambda>_.
               replay_queue E ip port commands s))
      | (_, s) \<Rightarrow> Inr (False, s))"

fun replay_rows :: "env \<Rightarrow> string \<Rightarrow> int \<Rightarrow> StorageServerInfo list \<Rightarrow> nm \<Rightarrow> nm result" where
  "replay_rows E ip port [] s = Inr s"
| "replay_rows E ip port (x # xs) s =
     (if ss_port_client x = port \<and> ss_ip x = ip then
        andthen (replay_queue E ip port (ss_commands x) s) (\<lambda>(go_on, s).
          if go_on then replay_rows E ip port xs s else Inr s)
      else replay_rows E ip port xs s)"

definition replay_commands :: "env \<Rightarrow> string \<Rightarrow> int \<Rightarrow> nm \<Rightarrow> nm result" where
  "replay_commands E ip port s = replay_rows E ip port (storage_servers s) s"

section \<open>Registration\<close>

definition same_ports :: "StorageServerInfo \<Rightarrow> StorageServerInfo \<Rightarrow> bool" where
  "same_ports x y \<longleftrightarrow> ss_ip x = ss_ip y \<and> ss_port_nm x = ss_port_nm y \<and>
     ss_port_client x = ss_port_client y \<and> ss_ss_port x = ss_ss_port y"

definition put_row :: "nat \<Rightarrow> StorageServerInfo \<Rightarrow> nm \<Rightarrow> nm" where
  "put_row i x s = s\<lparr>storage_servers := (storage_servers s)[i := x]\<rparr>"

text \<open>A row of this address that is inactive comes back: its queue is replayed, then emptied.\<close>

definition reconnect :: "env \<Rightarrow> nat \<Rightarrow> nm \<Rightarrow> nm result" where
  "reconnect E i s =
     (let x = storage_servers s ! i; s = put_row i (x\<lparr>ss_is_active := 1\<rparr>) s in
      andthen (replay_commands E (ss_ip x) (ss_port_client x) s) (\<lambda>s.
        Inr (put_row i ((storage_servers s ! i)\<lparr>ss_commands := []\<rparr>) s)))"

definition fresh_row :: "StorageServerInfo \<Rightarrow> StorageServerInfo" where
  "fresh_row info = info\<lparr>ss_is_active := 1, ss_backup_ip1 := '''', ss_backup_port1 := 0,
     ss_backup_ip2 := '''', ss_backup_port2 := 0, ss_commands := []\<rparr>"

definition add_row :: "StorageServerInfo \<Rightarrow> nm \<Rightarrow> nm result" where
  "add_row ss_info s =
     (if server_count s < MAX_CONNECTIONS then
        andthen (arr_get BUFFER_SIZE (ss_accessible_paths ss_info)) (\<lambda>paths.
          Inr (s\<lparr>storage_servers := storage_servers s @ [fresh_row ss_info],
                 file_trie := fold (\<lambda>token trie. update_file_info trie ss_info token)
                                (strtok_all (CHR '','') paths) (file_trie s)\<rparr>))
      else Inr s)"

section \<open>Assigning backups\<close>

text \<open>\<open>src_folder = strtok(storage_servers[i].accessible_paths, ",")\<close>, which may be NULL.\<close>

definition first_path :: "nat \<Rightarrow> nm \<Rightarrow> string option \<times> nm" where
  "first_path i s =
     (let x = storage_servers s ! i in
      case strtok_first (CHR '','') (ss_accessible_paths x) of
        (src_folder, buf) \<Rightarrow> (src_folder, put_row i (x\<lparr>ss_accessible_paths := buf\<rparr>) s))"

text \<open>
  One assignment: row \<open>i\<close> gets row \<open>dest\<close> as its first or second backup, and the folder of
  row \<open>i\<close> is copied there.
\<close>

definition set_backup :: "bool \<Rightarrow> StorageServerInfo \<Rightarrow> StorageServerInfo \<Rightarrow> StorageServerInfo" where
  "set_backup first dest x =
     (if first then x\<lparr>ss_backup_ip1 := ss_ip dest, ss_backup_port1 := ss_port_client dest\<rparr>
      else x\<lparr>ss_backup_ip2 := ss_ip dest, ss_backup_port2 := ss_port_client dest\<rparr>)"

definition assign_backup :: "env \<Rightarrow> bool \<Rightarrow> nat \<Rightarrow> string option \<Rightarrow> nat option \<Rightarrow> nm \<Rightarrow> nm result" where
  "assign_backup E first i src_folder dest_server s =
     (case dest_server of
        None \<Rightarrow> Inr s
      | Some dest \<Rightarrow>
          let s = put_row i (set_backup first (storage_servers s ! dest) (storage_servers s ! i)) s in
          (case src_folder of
             None \<Rightarrow> Inl NullDeref
           | Some src \<Rightarrow>
               andthen (strcpy 2000 src) (\<lambda>arg1.
               andthen (cut_paths dest s) (\<lambda>(dest_folder, s).
               andthen (strcpy 2000 dest_folder) (\<lambda>arg2.
               backup E arg1 arg2 s)))))"

definition if_active :: "nat \<Rightarrow> nm \<Rightarrow> nat option" where
  "if_active i s = (if ss_is_active (storage_servers s ! i) \<noteq> 0 then Some i else None)"

text \<open>The search downwards from the row before the last for two active servers.\<close>

definition latest_active :: "nm \<Rightarrow> nat list" where
  "latest_active s =
     take 2 (filter (\<lambda>i. ss_is_active (storage_servers s ! i) \<noteq> 0) (rev [0..<server_count s - 1]))"

text \<open>One server with its two backups; both candidates are chosen before the first copy.\<close>

definition assign_pair :: "env \<Rightarrow> nat \<Rightarrow> nat option \<Rightarrow> nat option \<Rightarrow> string option \<Rightarrow> nm \<Rightarrow> nm result" where
  "assign_pair E i dest1 dest2 src_folder s =
     andthen (assign_backup E True i src_folder dest1 s) (\<lambda>s.
     assign_backup E False i src_folder dest2 s)"

definition backup_third :: "env \<Rightarrow> nm \<Rightarrow> nm result" where
  "backup_third E s =
     (case first_path 0 s of (src_folder, s) \<Rightarrow>
      andthen (assign_pair E 0 (if_active 1 s) (if_active 2 s) src_folder s) (\<lambda>s.
      case first_path 1 s of (src_folder2, s) \<Rightarrow>
      assign_pair E 1 (if_active 0 s) (if_active 2 s) src_folder2 s))"

definition nth_option :: "'a list \<Rightarrow> nat \<Rightarrow> 'a option" where
  "nth_option xs i = (if i < length xs then Some (xs ! i) else None)"

definition backup_last :: "env \<Rightarrow> nm \<Rightarrow> nm result" where
  "backup_last E s =
     (case first_path (server_count s - 1) s of (src_folder, s) \<Rightarrow>
      let found = latest_active s in
      assign_pair E (server_count s - 1) (nth_option found 0) (nth_option found 1) src_folder s)"

definition trigger_backups :: "env \<Rightarrow> nm \<Rightarrow> nm result" where
  "trigger_backups E s =
     andthen (if server_count s = 3 then backup_third E s else Inr s) (\<lambda>s.
     if 3 \<le> server_count s then backup_last E s else Inr s)"

section \<open>The handler\<close>

definition register_server :: "env \<Rightarrow> nat \<Rightarrow> StorageServerInfo \<Rightarrow> nm \<Rightarrow> nm result" where
  "register_server E fd ss_info s =
     andthen (arr_get INET_ADDRSTRLEN (ss_ip ss_info)) (\<lambda>_.
     andthen
       (case find_index (\<lambda>x. ss_is_active x = 0 \<and> same_ports x ss_info) (storage_servers s) of
          Some i \<Rightarrow> reconnect E i s
        | None \<Rightarrow> andthen (add_row ss_info s) (\<lambda>s. trigger_backups E s))
       (\<lambda>s. Inr (send_text (Conn fd) ''STORAGE_SERVER'' s)))"

text \<open>One round of the heartbeat loop; \<^const>\<open>False\<close> is the \<open>break\<close>.\<close>

definition heartbeat :: "env \<Rightarrow> nat \<Rightarrow> nm \<Rightarrow> bool \<times> nm" where
  "heartbeat E fd s =
     (case net_recv E (Conn fd) (BUFFER_SIZE - 1) s of
        (None, s) \<Rightarrow> (False, s)
      | (Some bs, s) \<Rightarrow> (bs \<noteq> [], s))"

definition server_lost :: "nat \<Rightarrow> StorageServerInfo \<Rightarrow> nm \<Rightarrow> nm" where
  "server_lost fd ss_info s =
     (let s = (case find_index (\<lambda>x. same_ports x ss_info) (storage_servers s) of
                 None \<Rightarrow> s
               | Some i \<Rightarrow> put_row i ((storage_servers s ! i)\<lparr>ss_is_active := 0\<rparr>) s)
      in net_close (Conn fd) (fail_writes (ss_ip ss_info) (ss_port_client ss_info) s))"

text \<open>Written data on its way to the backups of the server that wrote it.\<close>

definition backup_data :: "env \<Rightarrow> string \<Rightarrow> string \<Rightarrow> StorageServerInfo \<Rightarrow> nm \<Rightarrow> nm result" where
  "backup_data E file_path data x s =
     (case dial E (ss_ip x) (ss_port_nm x) s of
        (Dialled k, s) \<Rightarrow>
          andthen (arr_get 4096 data) (\<lambda>data.
          Inr (net_close (Peer k) (send_text (Peer k) data
                (send_text (Peer k) (snprintf 5000 (''Backup '' @ file_path)) s))))
      | (_, s) \<Rightarrow> Inr s)"

fun forward_rows ::
  "env \<Rightarrow> string \<times> int \<Rightarrow> string \<times> int \<Rightarrow> string \<Rightarrow> string \<Rightarrow> StorageServerInfo list \<Rightarrow> nm \<Rightarrow> nm result" where
  "forward_rows E b1 b2 file_path data [] s = Inr s"
| "forward_rows E b1 b2 file_path data (x # xs) s =
     (if ss_is_active x \<noteq> 0 \<and> ((ss_ip x, ss_port_client x) = b1 \<or> (ss_ip x, ss_port_client x) = b2)
      then andthen (backup_data E file_path data x s) (\<lambda>s. forward_rows E b1 b2 file_path data xs s)
      else forward_rows E b1 b2 file_path data xs s)"

text \<open>A token of the message, or what the array held when the tokens ran out.\<close>

definition token_or :: "nat \<Rightarrow> string list \<Rightarrow> nat \<Rightarrow> string \<Rightarrow> string result" where
  "token_or n ts i old = (if i < length ts then strcpy n (ts ! i) else Inr old)"

definition forward_write :: "env \<Rightarrow> nat \<Rightarrow> string \<Rightarrow> nm \<Rightarrow> nm result" where
  "forward_write E fd buffer100 s =
     (let ts = strtok_all (CHR '' '') buffer100 in
      andthen (token_or INET_ADDRSTRLEN ts 0 (e_junk E ''ss_ip'')) (\<lambda>server_ip.
      let server_port = (if 1 < length ts then atoi (ts ! 1) else 0) in
      andthen (token_or BUFFER_SIZE ts 2 (e_junk E ''file_path'')) (\<lambda>file_path.
      let (b1, b2) =
            (case find_index (\<lambda>x. ss_ip x = server_ip \<and> ss_port_nm x = server_port) (storage_servers s) of
               None \<Rightarrow> (('''', -1), ('''', -1))
             | Some i \<Rightarrow> let x = storage_servers s ! i in
                 ((ss_backup_ip1 x, ss_backup_port1 x), (ss_backup_ip2 x, ss_backup_port2 x)));
          (r, s) = net_recv E (Conn fd) (4096 - 1) s;
          data = (case r of
                    None \<Rightarrow> e_junk E ''data''
                  | Some bs \<Rightarrow> if bs = [] then e_junk E ''data'' else c_str bs)
      in forward_rows E b1 b2 file_path data (storage_servers s) s)))"

text \<open>
  The first message of a connection. The result carries the registration record when the
  thread goes on to the heartbeat loop.
\<close>

definition storage_message :: "env \<Rightarrow> nat \<Rightarrow> nm \<Rightarrow> (StorageServerInfo option \<times> nm) result" where
  "storage_message E fd s =
     (case net_recv E (Conn fd) (BUFFER_SIZE - 1) s of
        (None, s) \<Rightarrow> Inr (None, net_close (Conn fd) s)
      | (Some bs, s) \<Rightarrow>
          let buffer100 = c_str bs in
          if buffer100 = ''REGISTER'' then
            (case net_read_info E (Conn fd) s of (ss_info, s) \<Rightarrow>
             andthen (register_server E fd ss_info s) (\<lambda>s. Inr (Some ss_info, s)))
          else if strncmp_eq 5 buffer100 ''write'' then
            let ws = sscanf_words buffer100;
                arg1 = (if 1 < length ws then ws ! 1 else e_junk E ''arg1'')
            in Inr (None, net_close (Conn fd) (notify_write arg1 s))
          else andthen (forward_write E fd buffer100 s) (\<lambda>s. Inr (None, net_close (Conn fd) s)))"

section \<open>Replays\<close>

text \<open>Talking to a peer leaves the tables alone.\<close>

lemma replay_queue_wlp:
  "wlp (\<lambda>(go_on, s'). \<exists>n. (if go_on then n = length commands else failures s < failures s') \<and>
      n \<le> length commands \<and>
      delivered s' = delivered s @ map (\<lambda>c. (Some (ip, htons port), Text c)) (take n commands) \<and>
      quiet s s' \<and> storage_servers s' = storage_servers s)
     (replay_queue E ip port commands s)"
proof (induction commands arbitrary: s)
  case Nil
  show ?case by simp
next
  case (Cons c cs)
  obtain d s1 where d: "dial E ip port s = (d, s1)" by (cases "dial E ip port s")
  have q1: "quiet s s1" "storage_servers s1 = storage_servers s" "delivered s1 = delivered s"
    using quiet_dial [OF d] dial_fields [OF d] delivered_dial [OF d] by simp_all
  show ?case
  proof (cases d)
    case (Dialled k)
    obtain r s2 where r: "net_recv E (Peer k) BUFFER_SIZE (send_text (Peer k) c s1) = (r, s2)"
      by (cases "net_recv E (Peer k) BUFFER_SIZE (send_text (Peer k) c s1)")
    have q2: "quiet s s2" "storage_servers s2 = storage_servers s"
      "delivered s2 = delivered s @ [(Some (ip, htons port), Text c)]"
      "failures s2 = failures s + (if r = None then 1 else 0)"
      using quiet_peer [OF q1(1) r] recv_fields [OF r] delivered_recv [OF r] delivered_dial(2) [OF d Dialled] q1
        failures_recv [OF r] failures_dial [OF d] Dialled
      by simp_all
    show ?thesis
    proof (cases r)
      case None
      with d Dialled r q2 show ?thesis by (simp add: exI [of _ "1 :: nat"])
    next
      case (Some bs)
      have "wlp (\<lambda>(go_on, s'). \<exists>n. (if go_on then n = length (c # cs) else failures s < failures s') \<and>
          n \<le> length (c # cs) \<and>
          delivered s' = delivered s @ map (\<lambda>c. (Some (ip, htons port), Text c)) (take n (c # cs)) \<and>
          quiet s s' \<and> storage_servers s' = storage_servers s) (replay_queue E ip port cs s2)"
      proof (rule wlp_mono [OF Cons.IH], clarify)
        fix go_on s3 n
        assume "if go_on then n = length cs else failures s2 < failures s3" "n \<le> length cs" "quiet s2 s3"
          "storage_servers s3 = storage_servers s2"
          "delivered s3 = delivered s2 @ map (\<lambda>c. (Some (ip, htons port), Text c)) (take n cs)"
        with q2 Some quiet_trans [OF q2(1)]
        show "\<exists>n. (if go_on then n = length (c # cs) else failures s < failures s3) \<and> n \<le> length (c # cs) \<and>
          delivered s3 = delivered s @ map (\<lambda>c. (Some (ip, htons port), Text c)) (take n (c # cs)) \<and>
          quiet s s3 \<and> storage_servers s3 = storage_servers s"
          by (intro exI [of _ "Suc n"]) (simp split: if_splits)
      qed
      with d Dialled r Some show ?thesis by (simp add: terminate_def)
    qed
  qed (use d q1 failures_dial [OF d] in \<open>auto intro: exI [of _ 0]\<close>)
qed

text \<open>A peer that takes every connection and answers every message with less than a buffer.\<close>

definition exchanges :: "env \<Rightarrow> string \<Rightarrow> int \<Rightarrow> bool" where
  "exchanges E ip port \<longleftrightarrow> e_pton E ip \<and> (\<forall>tr. e_socket E tr \<and> e_connect E tr ip (htons port)) \<and>
     (\<forall>tr k. \<exists>bs. e_recv E tr (Peer k) = Some bs \<and> length bs < BUFFER_SIZE)"

lemma replay_queue_runs:
  assumes "exchanges E ip port"
  shows "\<exists>s'. replay_queue E ip port commands s = Inr (True, s')"
proof (induction commands arbitrary: s)
  case (Cons c cs)
  let ?s1 = "send_text (Peer (length (trace s))) c (emit (Connected (length (trace s)) ip (htons port)) s)"
  have d: "dial E ip port s = (Dialled (length (trace s)), emit (Connected (length (trace s)) ip (htons port)) s)"
    using assms by (simp add: exchanges_def dial_def)
  obtain bs where "e_recv E (trace ?s1) (Peer (length (trace s))) = Some bs" "length bs < BUFFER_SIZE"
    using assms unfolding exchanges_def by blast
  then show ?case using d Cons.IH by (simp add: net_recv_def terminate_def)
qed simp

lemma replay_rows_quiet:
  "wlp (\<lambda>s'. quiet s s' \<and> storage_servers s' = storage_servers s) (replay_rows E ip port xs s)"
proof (induction xs arbitrary: s)
  case Nil
  show ?case by simp
next
  case (Cons x xs)
  have rest: "wlp (\<lambda>s'. quiet s s' \<and> storage_servers s' = storage_servers s)
      (if g then replay_rows E ip port xs s1 else Inr s1)"
    if "quiet s s1" "storage_servers s1 = storage_servers s" for g s1
    using that wlp_mono [OF Cons.IH [of s1]] quiet_trans [OF that(1)] by simp
  have "wlp (\<lambda>s'. quiet s s' \<and> storage_servers s' = storage_servers s)
      (andthen (replay_queue E ip port (ss_commands x) s) (\<lambda>(g, s1). if g then replay_rows E ip port xs s1 else Inr s1))"
    unfolding wlp_andthen
    by (rule wlp_mono [OF replay_queue_wlp]) (use rest in \<open>auto simp del: wlp_if\<close>)
  then show ?case using Cons.IH [of s] by (simp del: wlp_andthen)
qed

text \<open>With one row for the address, the commands of its queue reach it in order.\<close>

lemma replay_rows_single:
  assumes "filter (\<lambda>x. ss_port_client x = port \<and> ss_ip x = ip) xs = [x]"
  shows "replay_rows E ip port xs s =
    andthen (replay_queue E ip port (ss_commands x) s) (\<lambda>(g, s). Inr s)"
  using assms
proof (induction xs arbitrary: s)
  case (Cons y ys)
  show ?case
  proof (cases "ss_port_client y = port \<and> ss_ip y = ip")
    case True
    with Cons.prems have y: "y = x" and none: "filter (\<lambda>x. ss_port_client x = port \<and> ss_ip x = ip) ys = []"
      by auto
    have skip: "replay_rows E ip port ys t = Inr t" for t
      using none by (induction ys arbitrary: t) (auto split: if_splits)
    show ?thesis using True by (simp add: y skip cong: if_cong)
  qed (use Cons in \<open>auto split: if_splits\<close>)
qed simp

section \<open>Reconnection and loss\<close>

lemma put_row_fields [simp]:
  "nm_cache (put_row i x s) = nm_cache s" "file_trie (put_row i x s) = file_trie s"
  "write_clients (put_row i x s) = write_clients s" "trace (put_row i x s) = trace s"
  "server_count (put_row i x s) = server_count s" "delivered (put_row i x s) = delivered s"
  "replies c (put_row i x s) = replies c s"
  "storage_servers (put_row i x s) = (storage_servers s)[i := x]"
  by (simp_all add: put_row_def delivered_def replies_def)

lemma filter_unique:
  assumes "i < length xs" and "P (xs ! i)" and "\<And>j. j < length xs \<Longrightarrow> j \<noteq> i \<Longrightarrow> \<not> P (xs ! j)"
  shows "filter P xs = [xs ! i]"
proof -
  have xs: "xs = take i xs @ xs ! i # drop (Suc i) xs" using assms(1) by (rule id_take_nth_drop)
  have "\<not> P y" if "y \<in> set (take i xs)" for y
    using that assms(1,3) by (force simp: in_set_conv_nth)
  moreover have "\<not> P y" if "y \<in> set (drop (Suc i) xs)" for y
    using that assms(3) by (force simp: in_set_conv_nth)
  ultimately have "filter P (take i xs) = []" and "filter P (drop (Suc i) xs) = []"
    by (simp_all add: filter_empty_conv)
  then show ?thesis using assms(2) by (subst xs) (simp del: append_take_drop_id)
qed

definition sole_row :: "nat \<Rightarrow> nm \<Rightarrow> bool" where
  "sole_row i s \<longleftrightarrow> i < server_count s \<and>
     (\<forall>j < server_count s. j \<noteq> i \<longrightarrow>
        (ss_ip (storage_servers s ! j), ss_port_client (storage_servers s ! j)) \<noteq>
        (ss_ip (storage_servers s ! i), ss_port_client (storage_servers s ! i)))"

lemma reconnect_single:
  assumes sole: "sole_row i s"
  defines "x \<equiv> storage_servers s ! i"
  shows "reconnect E i s = andthen (replay_queue E (ss_ip x) (ss_port_client x) (ss_commands x)
      (put_row i (x\<lparr>ss_is_active := 1\<rparr>) s)) (\<lambda>(g, s). Inr (put_row i ((storage_servers s ! i)\<lparr>ss_commands := []\<rparr>) s))"
proof -
  let ?s1 = "put_row i (x\<lparr>ss_is_active := 1\<rparr>) s"
  have less: "i < server_count s" using sole by (simp add: sole_row_def)
  have "filter (\<lambda>y. ss_port_client y = ss_port_client x \<and> ss_ip y = ss_ip x) (storage_servers ?s1) =
      [storage_servers ?s1 ! i]"
    using sole less by (intro filter_unique) (auto simp: sole_row_def x_def nth_list_update)
  then have "filter (\<lambda>y. ss_port_client y = ss_port_client x \<and> ss_ip y = ss_ip x) (storage_servers ?s1) =
      [x\<lparr>ss_is_active := 1\<rparr>]"
    using less by simp
  from replay_rows_single [OF this] show ?thesis
    by (simp add: reconnect_def replay_commands_def x_def Let_def andthen_assoc case_prod_unfold)
qed

text \<open>
  C18: A storage server that comes back becomes active with an empty queue. It was sent the first
  commands of its queue, in order, on connections to its own address: all of them, unless a call of
  the replay failed, and then the rest of the queue is lost. When the server takes every connection
  and answers, the replay ends and nothing of the queue is missing.
\<close>

lemma reconnect_replays:
  assumes sole: "sole_row i s"
  shows "wlp (\<lambda>s'. storage_servers s' =
              (storage_servers s)[i := (storage_servers s ! i)\<lparr>ss_is_active := 1, ss_commands := []\<rparr>] \<and>
            (\<exists>n \<le> length (ss_commands (storage_servers s ! i)). delivered s' = delivered s @
               map (\<lambda>c. (Some (ss_ip (storage_servers s ! i), htons (ss_port_client (storage_servers s ! i))), Text c))
                 (take n (ss_commands (storage_servers s ! i))) \<and>
               (n = length (ss_commands (storage_servers s ! i)) \<or> failures s < failures s')) \<and>
            quiet s s')
           (reconnect E i s) \<and>
         (exchanges E (ss_ip (storage_servers s ! i)) (ss_port_client (storage_servers s ! i)) \<longrightarrow>
          wp (\<lambda>s'. storage_servers s' =
              (storage_servers s)[i := (storage_servers s ! i)\<lparr>ss_is_active := 1, ss_commands := []\<rparr>] \<and>
            delivered s' = delivered s @
               map (\<lambda>c. (Some (ss_ip (storage_servers s ! i), htons (ss_port_client (storage_servers s ! i))), Text c))
                 (ss_commands (storage_servers s ! i)))
           (reconnect E i s))"
proof -
  let ?x = "storage_servers s ! i"
  let ?s1 = "put_row i (?x\<lparr>ss_is_active := 1\<rparr>) s"
  let ?m = "replay_queue E (ss_ip ?x) (ss_port_client ?x) (ss_commands ?x) ?s1"
  have less: "i < server_count s" using sole by (simp add: sole_row_def)
  note run = reconnect_single [OF sole, of E] and part = replay_queue_wlp [where s = ?s1 and commands = "ss_commands ?x" and ip = "ss_ip ?x" and port = "ss_port_client ?x" and E = E]
  have fail: "failures ?s1 = failures s" by (simp add: failures_def)
  have put: "failures (put_row i y t) = failures t" for y t by (simp add: failures_def)
  show ?thesis
  proof (intro conjI impI)
    show "wlp (\<lambda>s'. storage_servers s' = (storage_servers s)[i := ?x\<lparr>ss_is_active := 1, ss_commands := []\<rparr>] \<and>
            (\<exists>n \<le> length (ss_commands ?x). delivered s' = delivered s @
               map (\<lambda>c. (Some (ss_ip ?x, htons (ss_port_client ?x)), Text c)) (take n (ss_commands ?x)) \<and>
               (n = length (ss_commands ?x) \<or> failures s < failures s')) \<and> quiet s s') (reconnect E i s)"
      unfolding run wlp_andthen
    proof (rule wlp_mono [OF part], clarify)
      fix g t n
      assume "if g then n = length (ss_commands ?x) else failures ?s1 < failures t" "n \<le> length (ss_commands ?x)"
        "delivered t = delivered ?s1 @
           map (\<lambda>c. (Some (ss_ip ?x, htons (ss_port_client ?x)), Text c)) (take n (ss_commands ?x))"
        "quiet ?s1 t" "storage_servers t = storage_servers ?s1"
      with less show "wlp (\<lambda>s'. storage_servers s' = (storage_servers s)[i := ?x\<lparr>ss_is_active := 1, ss_commands := []\<rparr>] \<and>
            (\<exists>n \<le> length (ss_commands ?x). delivered s' = delivered s @
               map (\<lambda>c. (Some (ss_ip ?x, htons (ss_port_client ?x)), Text c)) (take n (ss_commands ?x)) \<and>
               (n = length (ss_commands ?x) \<or> failures s < failures s')) \<and> quiet s s')
          (Inr (put_row i ((storage_servers t ! i)\<lparr>ss_commands := []\<rparr>) t))"
        by (auto simp: quiet_def fail put intro!: exI [of _ n] split: if_splits)
    qed
  next
    assume "exchanges E (ss_ip ?x) (ss_port_client ?x)"
    then obtain t where t: "?m = Inr (True, t)" using replay_queue_runs by blast
    with part less show "wp (\<lambda>s'. storage_servers s' =
          (storage_servers s)[i := ?x\<lparr>ss_is_active := 1, ss_commands := []\<rparr>] \<and>
        delivered s' = delivered s @
          map (\<lambda>c. (Some (ss_ip ?x, htons (ss_port_client ?x)), Text c)) (ss_commands ?x)) (reconnect E i s)"
      by (auto simp: run)
  qed
qed

lemma reconnect_witness:
  "wp (\<lambda>s'. delivered s' = [(Some (''10.0.0.2'', 6002), Text ''CREATE e/d old.c'')] \<and>
        storage_servers s' ! 1 = spare_row\<lparr>ss_is_active := 1, ss_commands := []\<rparr>)
     (reconnect sample_env 1 backed_nm)"
proof -
  have sole: "sole_row 1 backed_nm" by (auto simp: sole_row_def less_Suc_eq owner_row_def spare_row_def)
  have go: "exchanges sample_env (ss_ip spare_row) (ss_port_client spare_row)"
    by (simp add: exchanges_def sample_env_def)
  have fields: "ss_ip spare_row = ''10.0.0.2''" "ss_port_client spare_row = 6002"
    "ss_commands spare_row = [''CREATE e/d old.c'']" by (simp_all add: spare_row_def)
  show ?thesis
    using reconnect_replays [OF sole, of sample_env] go
    by (auto simp: fields htons_def delivered_def elim!: wp_mono)
qed

text \<open>A lost server: its first row is inactive, and every waiting write on it has failed.\<close>

lemma server_lost_row:
  assumes "find_index (\<lambda>x. same_ports x info) (storage_servers s) = Some i"
  shows "storage_servers (server_lost fd info s) =
           (storage_servers s)[i := (storage_servers s ! i)\<lparr>ss_is_active := 0\<rparr>]"
    and "write_clients (server_lost fd info s) =
      map (\<lambda>c. if ci_active c \<noteq> 0 \<and> ci_ss_ip c = ss_ip info \<and> ci_ss_port c = ss_port_client info
               then c\<lparr>ci_status := 2\<rparr> else c) (write_clients s)"
    and "file_trie (server_lost fd info s) = file_trie s"
  using assms by (simp_all add: server_lost_def fail_writes_def Let_def)

section \<open>New servers\<close>

lemma info_at_register:
  "info_at (fold (\<lambda>token trie. update_file_info trie info token) ts t) p =
     (if p \<in> set ts
      then Some \<lparr>fi_ip = strncpy INET_ADDRSTRLEN (ss_ip info), fi_port_client = ss_port_client info,
                 fi_file_path = strncpy MAX_FILE_PATH_SIZE p\<rparr>
      else info_at t p)"
  by (induction ts arbitrary: t) (auto simp: update_file_info_put trie.lookup_update)

text \<open>
  While fewer than three servers are known, a registration appends its row, makes every
  accessible path known as living on it, and answers the server.
\<close>

text \<open>
  C31: The registration of the first or the second server appends a row (active, no backups,
  empty queue), records every accessible path as living on the server, keeps all other paths,
  and acknowledges.
\<close>

lemma register_server_new:
  assumes new: "\<not> (\<exists>x \<in> set (storage_servers s). ss_is_active x = 0 \<and> same_ports x info)"
    and few: "server_count s < 2"
    and ip: "length (ss_ip info) < INET_ADDRSTRLEN"
    and paths: "length (ss_accessible_paths info) < BUFFER_SIZE"
  shows "wp (\<lambda>s'. storage_servers s' = storage_servers s @ [fresh_row info] \<and>
            (\<forall>p. info_at (file_trie s') p =
              (if p \<in> set (strtok_all (CHR '','') (ss_accessible_paths info))
               then Some \<lparr>fi_ip = ss_ip info, fi_port_client = ss_port_client info,
                          fi_file_path = strncpy MAX_FILE_PATH_SIZE p\<rparr>
               else info_at (file_trie s) p)) \<and>
            replies (Conn fd) s' = replies (Conn fd) s @ [Text ''STORAGE_SERVER'']) (register_server E fd info s)"
proof -
  have "find_index (\<lambda>x. ss_is_active x = 0 \<and> same_ports x info) (storage_servers s) = None"
    using new by (simp add: find_index_None)
  then show ?thesis
    using few ip paths
    by (simp add: register_server_def add_row_def trigger_backups_def info_at_register)
qed

lemma register_server_new_witness:
  "wp (\<lambda>s'. storage_servers s' = [owner_row]) (register_server sample_env 9 owner_row initial_nm)"
proof -
  have row: "fresh_row owner_row = owner_row" by (simp add: fresh_row_def owner_row_def)
  have "wp (\<lambda>s'. storage_servers s' = [fresh_row owner_row]) (register_server sample_env 9 owner_row initial_nm)"
    by (rule wp_mono [OF register_server_new]) (simp_all add: initial_nm_def owner_row_def)
  then show ?thesis by (simp only: row)
qed

section \<open>Who backs up whom\<close>

text \<open>What matters of a row here: its address, whether it is active, and its two backups.\<close>

record server_link =
  sl_addr :: "string \<times> int"
  sl_active :: bool
  sl_backup1 :: "string \<times> int"
  sl_backup2 :: "string \<times> int"

definition link :: "StorageServerInfo \<Rightarrow> server_link" where
  "link x = \<lparr>sl_addr = (ss_ip x, ss_port_client x), sl_active = (ss_is_active x \<noteq> 0),
             sl_backup1 = (ss_backup_ip1 x, ss_backup_port1 x),
             sl_backup2 = (ss_backup_ip2 x, ss_backup_port2 x)\<rparr>"

definition links :: "nm \<Rightarrow> server_link list" where
  "links s = map link (storage_servers s)"

lemma length_links [simp]: "length (links s) = server_count s"
  by (simp add: links_def)

lemma links_cong: "storage_servers s' = storage_servers s \<Longrightarrow> links s' = links s"
  by (simp add: links_def)

lemma link_paths [simp]: "link (x\<lparr>ss_accessible_paths := b\<rparr>) = link x"
  by (simp add: link_def)

lemma link_set_backup:
  "link (set_backup first d x) =
     (if first then (link x)\<lparr>sl_backup1 := sl_addr (link d)\<rparr>
      else (link x)\<lparr>sl_backup2 := sl_addr (link d)\<rparr>)"
  by (simp add: link_def set_backup_def)

lemma links_put_row: "links (put_row i x s) = (links s)[i := link x]"
  by (simp add: links_def map_update)

lemma links_nth: "i < server_count s \<Longrightarrow> links s ! i = link (storage_servers s ! i)"
  by (simp add: links_def)

lemma first_path_links: "first_path i s = (r, s') \<Longrightarrow> i < server_count s \<Longrightarrow> links s' = links s"
  by (auto simp: first_path_def Let_def links_put_row links_nth [symmetric] split: prod.splits)

lemma cut_paths_links: "cut_paths i s = Inr (t, s') \<Longrightarrow> i < server_count s \<Longrightarrow> links s' = links s"
  by (auto simp: cut_paths_def Let_def links_def map_update map_nth list_update_same_conv
      split: prod.splits option.splits)

lemma backup_rows: "wlp (\<lambda>s'. storage_servers s' = storage_servers s) (backup E arg1 arg2 s)"
  using tables.backup_R [of s E arg1 arg2] by (rule wlp_mono) (simp add: same_tables_def)

definition with_backup :: "bool \<Rightarrow> nat \<Rightarrow> nat option \<Rightarrow> server_link list \<Rightarrow> server_link list" where
  "with_backup first i dest ls =
     (case dest of
        None \<Rightarrow> ls
      | Some d \<Rightarrow> ls[i := (if first then (ls ! i)\<lparr>sl_backup1 := sl_addr (ls ! d)\<rparr>
                        else (ls ! i)\<lparr>sl_backup2 := sl_addr (ls ! d)\<rparr>)])"

lemma length_with_backup [simp]: "length (with_backup first i dest ls) = length ls"
  by (simp add: with_backup_def split: option.split)

lemma assign_backup_links:
  assumes "i < server_count s" and "\<And>d. dest = Some d \<Longrightarrow> d < server_count s"
  shows "wlp (\<lambda>s'. links s' = with_backup first i dest (links s)) (assign_backup E first i src dest s)"
proof (cases dest)
  case None
  then show ?thesis by (simp add: assign_backup_def with_backup_def)
next
  case (Some d)
  let ?s1 = "put_row i (set_backup first (storage_servers s ! d) (storage_servers s ! i)) s"
  have d: "d < server_count s" using assms(2) Some by simp
  have l1: "links ?s1 = with_backup first i dest (links s)"
    using assms(1) d by (simp add: links_put_row link_set_backup with_backup_def Some links_nth)
  have copied: "wlp (\<lambda>s'. links s' = with_backup first i dest (links s))
      (andthen (strcpy 2000 f) (\<lambda>arg2. backup E arg1 arg2 s2))"
    if "cut_paths d ?s1 = Inr (f, s2)" for arg1 f s2
  proof (rule wlp_bind_any)
    fix arg2
    have l2: "links s2 = with_backup first i dest (links s)"
      using cut_paths_links [OF that] d l1 by simp
    show "wlp (\<lambda>s'. links s' = with_backup first i dest (links s)) (backup E arg1 arg2 s2)"
      by (rule wlp_mono [OF backup_rows]) (drule links_cong, simp only: l2)
  qed
  have cut: "wlp (\<lambda>s'. links s' = with_backup first i dest (links s))
      (andthen (cut_paths d ?s1) (\<lambda>(f, s). andthen (strcpy 2000 f) (\<lambda>arg2. backup E arg1 arg2 s)))" for arg1
    using copied by (cases "cut_paths d ?s1") (auto simp del: wlp_andthen)
  show ?thesis
    unfolding assign_backup_def Some option.case Let_def
    by (rule wlp_option, simp, rule wlp_bind_any, rule cut [unfolded Some])
qed

lemma assign_pair_links:
  assumes "i < server_count s" and "\<And>d. d1 = Some d \<Longrightarrow> d < server_count s"
    and "\<And>d. d2 = Some d \<Longrightarrow> d < server_count s"
  shows "wlp (\<lambda>s'. links s' = with_backup False i d2 (with_backup True i d1 (links s)))
           (assign_pair E i d1 d2 src s)"
proof -
  have "wlp (\<lambda>s'. links s' = with_backup False i d2 (with_backup True i d1 (links s)))
      (assign_backup E False i src d2 s1)"
    if l: "links s1 = with_backup True i d1 (links s)" for s1
  proof -
    have "length (links s1) = length (links s)" using l by simp
    then have "server_count s1 = server_count s" by simp
    then show ?thesis
      using assign_backup_links [of i s1 d2 False E src] assms l by simp
  qed
  with assms show ?thesis
    unfolding assign_pair_def wlp_andthen
    by (intro wlp_mono [OF assign_backup_links [of i s d1 True E src]]) blast+
qed

text \<open>
  When the third server registers and all three are active, each of the three gets the other
  two as its backups.
\<close>

lemma if_active_eq: "i < server_count s \<Longrightarrow> if_active i s = (if sl_active (links s ! i) then Some i else None)"
  by (simp add: if_active_def links_nth link_def)

lemma latest_active_eq:
  "latest_active s = take 2 (filter (\<lambda>i. sl_active (links s ! i)) (rev [0..<server_count s - 1]))"
  unfolding latest_active_def
  by (intro arg_cong [of _ _ "take 2"] filter_cong) (auto simp: links_nth link_def)

lemma backup_third_links:
  assumes ls: "links s = [a, b, c]" and act: "sl_active a" "sl_active b" "sl_active c"
  shows "wlp (\<lambda>s'. links s' = [a\<lparr>sl_backup1 := sl_addr b, sl_backup2 := sl_addr c\<rparr>,
                             b\<lparr>sl_backup1 := sl_addr a, sl_backup2 := sl_addr c\<rparr>, c]) (backup_third E s)"
proof -
  have n: "server_count s = 3" using length_links [of s] ls by simp
  obtain src s1 where p1: "first_path 0 s = (src, s1)" by (cases "first_path 0 s")
  have l1: "links s1 = [a, b, c]" using first_path_links [OF p1] n ls by simp
  have n1: "server_count s1 = 3" using length_links [of s1] l1 by simp
  let ?A = "a\<lparr>sl_backup1 := sl_addr b, sl_backup2 := sl_addr c\<rparr>"
  have second: "wlp (\<lambda>s'. links s' = [?A, b\<lparr>sl_backup1 := sl_addr a, sl_backup2 := sl_addr c\<rparr>, c])
      (case first_path 1 t of (src2, t) \<Rightarrow> assign_pair E 1 (if_active 0 t) (if_active 2 t) src2 t)"
    if t: "links t = [?A, b, c]" for t
  proof -
    have m: "server_count t = 3" using length_links [of t] t by simp
    obtain src2 t1 where p2: "first_path 1 t = (src2, t1)" by (cases "first_path 1 t")
    have l2: "links t1 = [?A, b, c]" using first_path_links [OF p2] m t by simp
    have m2: "server_count t1 = 3" using length_links [of t1] l2 by simp
    have "if_active 0 t1 = Some 0" "if_active 2 t1 = Some 2"
      using act m2 by (simp_all add: if_active_eq l2)
    then show ?thesis
      using p2 m2 wlp_mono [OF assign_pair_links [of 1 t1 "Some 0" "Some 2" E src2]]
      by (simp add: l2 with_backup_def)
  qed
  have "if_active 1 s1 = Some 1" "if_active 2 s1 = Some 2"
    using act n1 by (simp_all add: if_active_eq l1)
  then have "wlp (\<lambda>t. links t = [?A, b, c]) (assign_pair E 0 (if_active 1 s1) (if_active 2 s1) src s1)"
    using n1 assign_pair_links [of 0 s1 "Some 1" "Some 2" E src] by (simp add: l1 with_backup_def)
  then show ?thesis
    unfolding backup_third_def p1 prod.case wlp_andthen
    by (rule wlp_mono) (rule second)
qed

lemma backup_last_links:
  assumes n: "0 < server_count s"
  defines "ds \<equiv> latest_active s" and "i \<equiv> server_count s - 1"
  shows "wlp (\<lambda>s'. links s' = with_backup False i (nth_option ds 1) (with_backup True i (nth_option ds 0) (links s)))
     (backup_last E s)"
proof -
  obtain src s1 where p: "first_path i s = (src, s1)" by (cases "first_path i s")
  have l: "links s1 = links s" using first_path_links [OF p] n by (simp add: i_def)
  then have c: "server_count s1 = server_count s" using length_links [of s] length_links [of s1] by simp
  have ds: "latest_active s1 = ds" by (simp add: ds_def latest_active_eq l c)
  have "d < server_count s" if "d \<in> set ds" for d
    using that by (auto simp: ds_def latest_active_def dest!: in_set_takeD)
  then have "nth_option ds k = Some d \<Longrightarrow> d < server_count s1" for k d
    by (auto simp: nth_option_def c split: if_splits)
  with n show ?thesis
    using p assign_pair_links [of i s1 "nth_option ds 0" "nth_option ds 1" E src]
    by (simp add: backup_last_def ds Let_def l c i_def)
qed

lemma trigger_three:
  assumes ls: "links s = [a, b, c]" and act: "sl_active a" "sl_active b" "sl_active c"
  shows "wlp (\<lambda>s'. links s' = [a\<lparr>sl_backup1 := sl_addr b, sl_backup2 := sl_addr c\<rparr>,
                             b\<lparr>sl_backup1 := sl_addr a, sl_backup2 := sl_addr c\<rparr>,
                             c\<lparr>sl_backup1 := sl_addr b, sl_backup2 := sl_addr a\<rparr>]) (trigger_backups E s)"
proof -
  have n: "server_count s = 3" using length_links [of s] ls by simp
  let ?A = "a\<lparr>sl_backup1 := sl_addr b, sl_backup2 := sl_addr c\<rparr>"
  let ?B = "b\<lparr>sl_backup1 := sl_addr a, sl_backup2 := sl_addr c\<rparr>"
  have last: "wlp (\<lambda>s'. links s' = [?A, ?B, c\<lparr>sl_backup1 := sl_addr b, sl_backup2 := sl_addr a\<rparr>])
      (if 3 \<le> server_count t then backup_last E t else Inr t)" if t: "links t = [?A, ?B, c]" for t
  proof -
    have m: "server_count t = 3" using length_links [of t] t by simp
    have "rev [0..<server_count t - 1] = [1, 0]" by (simp add: m upt_rec)
    then have "latest_active t = [1, 0]" using act by (simp add: latest_active_eq t)
    then show ?thesis
      using m backup_last_links [of t E] by (simp add: t nth_option_def with_backup_def)
  qed
  show ?thesis
    unfolding trigger_backups_def wlp_andthen
    by (simp only: n simp_thms if_True) (rule wlp_mono [OF backup_third_links [OF ls act]], rule last)
qed

text \<open>
  C12: When a third server registers next to two active ones, each of the three ends up with the
  other two as its backups, and no address or activity changes.
\<close>

lemma third_server_backups:
  fixes info :: StorageServerInfo
  assumes ls: "links s = [a, b]" and act: "sl_active a" "sl_active b"
  defines "c \<equiv> link (fresh_row info)"
  shows "wlp (\<lambda>s'. links s' = [a\<lparr>sl_backup1 := sl_addr b, sl_backup2 := sl_addr c\<rparr>,
                             b\<lparr>sl_backup1 := sl_addr a, sl_backup2 := sl_addr c\<rparr>,
                             c\<lparr>sl_backup1 := sl_addr b, sl_backup2 := sl_addr a\<rparr>])
     (register_server E fd info s)"
proof -
  have n: "server_count s = 2" using length_links [of s] ls by simp
  have "ss_is_active x \<noteq> 0" if "x \<in> set (storage_servers s)" for x
  proof -
    have "link x \<in> set (links s)" using that by (simp add: links_def)
    with ls act have "sl_active (link x)" by auto
    then show ?thesis by (simp add: link_def)
  qed
  then have none: "find_index (\<lambda>x. ss_is_active x = 0 \<and> same_ports x info) (storage_servers s) = None"
    by (auto simp: find_index_None)
  have third: "links (s\<lparr>storage_servers := storage_servers s @ [fresh_row info], file_trie := t\<rparr>) = [a, b, c]" for t
    using ls by (simp add: links_def c_def)
  have "sl_active c" by (simp add: c_def link_def fresh_row_def)
  note three = trigger_three [OF third act this]
  have run: "wlp (\<lambda>s'. links s' = [a\<lparr>sl_backup1 := sl_addr b, sl_backup2 := sl_addr c\<rparr>,
                             b\<lparr>sl_backup1 := sl_addr a, sl_backup2 := sl_addr c\<rparr>,
                             c\<lparr>sl_backup1 := sl_addr b, sl_backup2 := sl_addr a\<rparr>])
      (andthen (add_row info s) (trigger_backups E))"
    unfolding add_row_def n
    by (rule wlp_if_bind, unfold andthen_assoc andthen_Inr, rule wlp_bind_any, rule three) simp
  have told: "links (send_text (Conn fd) m t) = links t" for m t
    by (rule links_cong) simp
  show ?thesis
    unfolding register_server_def none option.case
    by (rule wlp_bind_any, subst wlp_andthen, rule wlp_mono [OF run]) (simp add: told)
qed

lemma third_server_backups_witness:
  "wlp (\<lambda>s'. map sl_backup1 (links s') = [(''10.0.0.2'', 6002), (''10.0.0.1'', 5002), (''10.0.0.2'', 6002)] \<and>
            map sl_backup2 (links s') = [(''10.0.0.3'', 5002), (''10.0.0.3'', 5002), (''10.0.0.1'', 5002)])
     (register_server sample_env 9 third_row two_nm)"
proof -
  have "links two_nm = [link owner_row, link (spare_row\<lparr>ss_is_active := 1\<rparr>)]" by (simp add: links_def)
  from third_server_backups [OF this, of third_row sample_env 9] show ?thesis
    by (auto simp: link_def owner_row_def spare_row_def third_row_def fresh_row_def elim!: wlp_mono)
qed

section \<open>Written data reaches the backups\<close>

text \<open>A peer that accepts every connection.\<close>

definition all_dialled :: "env \<Rightarrow> bool" where
  "all_dialled E \<longleftrightarrow> (\<forall>tr. e_socket E tr) \<and> (\<forall>ip. e_pton E ip) \<and> (\<forall>tr ip p. e_connect E tr ip p)"

definition backup_messages :: "string \<Rightarrow> string \<Rightarrow> StorageServerInfo \<Rightarrow> (address option \<times> payload) list" where
  "backup_messages file_path data x =
     [(Some (ss_ip x, htons (ss_port_nm x)), Text (snprintf 5000 (''Backup '' @ file_path))),
      (Some (ss_ip x, htons (ss_port_nm x)), Text data)]"

lemma backup_data_delivers:
  assumes "all_dialled E" and "length data < 4096"
  shows "wp (\<lambda>s'. delivered s' = delivered s @ backup_messages p data x) (backup_data E p data x s)"
proof -
  obtain k s1 where d: "dial E (ss_ip x) (ss_port_nm x) s = (Dialled k, s1)"
    using assms(1) by (auto simp: dial_def all_dialled_def)
  from delivered_dial [OF d] assms(2) d show ?thesis
    by (simp add: backup_data_def backup_messages_def)
qed

lemma forward_rows_delivers:
  assumes "all_dialled E" and "length data < 4096"
  shows "wp (\<lambda>s'. delivered s' = delivered s @ concat (map (backup_messages p data)
              (filter (\<lambda>x. ss_is_active x \<noteq> 0 \<and> (ss_ip x, ss_port_client x) \<in> {b1, b2}) xs)))
     (forward_rows E b1 b2 p data xs s)"
proof (induction xs arbitrary: s)
  case Nil
  show ?case by simp
next
  case (Cons x xs)
  obtain s1 where s1: "backup_data E p data x s = Inr s1" "delivered s1 = delivered s @ backup_messages p data x"
    using backup_data_delivers [OF assms, of s p x] unfolding wp_iff by blast
  show ?case
    using s1(1) Cons.IH [of s1] Cons.IH [of s] by (auto simp: s1(2))
qed

lemma strtok_report:
  assumes "word a" and "word b" and "word c"
  shows "strtok_all (CHR '' '') (a @ '' '' @ b @ '' '' @ c) = [a, b, c]"
proof -
  have clean: "\<forall>x \<in> set w. x \<noteq> CHR '' ''" "w \<noteq> []" if "word w" for w
    using that by (auto simp: word_def list_all_iff)
  show ?thesis
    using clean [OF assms(1)] clean [OF assms(2)] clean [OF assms(3)]
    by (simp add: strtok_all_def split_on_word_sep split_on_word)
qed

text \<open>
  C13: A report of the form "ip port path" from a storage server, followed by the written data,
  sends "Backup path" and then the data to the command port of exactly the active servers that
  are backups of the reporting server, in table order.
\<close>

lemma forward_write_delivers:
  fixes s :: nm and i :: nat
  assumes net: "all_dialled E"
    and words: "word ip" "word path" and len: "length ip < INET_ADDRSTRLEN" "length path < BUFFER_SIZE"
    and owner: "find_index (\<lambda>x. ss_ip x = ip \<and> ss_port_nm x = port) (storage_servers s) = Some i"
    and data: "e_recv E (trace s) (Conn fd) = Some data" "data \<noteq> []" "length data < 4096" "CHR 0x00 \<notin> set data"
  defines "x \<equiv> storage_servers s ! i"
  shows "wp (\<lambda>s'. delivered s' = delivered s @ concat (map (backup_messages path data)
              (filter (\<lambda>y. ss_is_active y \<noteq> 0 \<and> (ss_ip y, ss_port_client y) \<in>
                   {(ss_backup_ip1 x, ss_backup_port1 x), (ss_backup_ip2 x, ss_backup_port2 x)})
                 (storage_servers s))))
     (forward_write E fd (ip @ '' '' @ dec port @ '' '' @ path) s)"
proof -
  have tokens: "strtok_all (CHR '' '') (ip @ '' '' @ dec port @ '' '' @ path) = [ip, dec port, path]"
    by (rule strtok_report [OF words(1) word_dec words(2)])
  have "take 4095 data = data" using data(3) by simp
  then have recv: "net_recv E (Conn fd) (4096 - 1) s = (Some data, emit (Received (Conn fd) data) s)"
    using data(1) by (simp add: net_recv_def)
  have same: "delivered (emit (Received (Conn fd) data) s) = delivered s" by (simp add: delivered_def)
  show ?thesis
    using forward_rows_delivers [OF net data(3), of "emit (Received (Conn fd) data) s" path
        "(ss_backup_ip1 x, ss_backup_port1 x)" "(ss_backup_ip2 x, ss_backup_port2 x)" "storage_servers s"]
    unfolding forward_write_def tokens Let_def recv
    using len data(2,4) owner by (simp add: token_or_def atoi_dec x_def same)
qed

lemma forward_write_delivers_witness:
  "wp (\<lambda>s'. delivered s' = [(Some (''10.0.0.2'', htons 6001), Text ''Backup d/f.c''),
                           (Some (''10.0.0.2'', htons 6001), Text ''success'')])
     (forward_write sample_env 9 (''10.0.0.1'' @ '' '' @ dec 5001 @ '' '' @ ''d/f.c'') failover_nm)"
proof -
  have "all_dialled sample_env" by (simp add: all_dialled_def sample_env_def)
  moreover have "word ''10.0.0.1''" "word ''d/f.c''" by (simp_all add: word_def isspace_def)
  moreover have "find_index (\<lambda>x. ss_ip x = ''10.0.0.1'' \<and> ss_port_nm x = 5001) (storage_servers failover_nm) = Some 0"
    by (simp add: owner_row_def)
  moreover have "e_recv sample_env (trace failover_nm) (Conn 9) = Some ''success''" by (simp add: sample_env_def)
  ultimately have "wp (\<lambda>s'. delivered s' = delivered failover_nm @ concat (map (backup_messages ''d/f.c'' ''success'')
        (filter (\<lambda>y. ss_is_active y \<noteq> 0 \<and> (ss_ip y, ss_port_client y) \<in>
           {(ss_backup_ip1 (storage_servers failover_nm ! 0), ss_backup_port1 (storage_servers failover_nm ! 0)),
            (ss_backup_ip2 (storage_servers failover_nm ! 0), ss_backup_port2 (storage_servers failover_nm ! 0))})
          (storage_servers failover_nm))))
     (forward_write sample_env 9 (''10.0.0.1'' @ '' '' @ dec 5001 @ '' '' @ ''d/f.c'') failover_nm)"
    by (intro forward_write_delivers) simp_all
  then show ?thesis
    by (simp add: owner_row_def spare_row_def backup_messages_def delivered_def)
qed

end
