(* ===== verification/NM_Dispatch.thy ===== *)
theory NM_Dispatch
  imports NM_Register
begin

text \<open>
  \<open>process_client_command\<close> and \<open>handle_client\<close> of \<open>naming_server.c\<close>: a message of a client
  is split into words and given to the handler its first word names.
\<close>

section \<open>Dispatch\<close>

text \<open>The messages of \<open>list_files\<close>, and the terminator the dispatcher adds.\<close>

definition send_all :: "chan \<Rightarrow> string list \<Rightarrow> nm \<Rightarrow> nm" where
  "send_all c ms s = fold (\<lambda>m s. send_text c m s) ms s"

definition handle_list :: "nat \<Rightarrow> string \<Rightarrow> nm \<Rightarrow> nm result" where
  "handle_list fd arg1 s =
     andthen (list_files (file_trie s) arg1) (\<lambda>ms.
       Inr (send_text (Conn fd) (''STOP'' @ nl) (send_all (Conn fd) ms s)))"

definition not_waiting :: "nm result \<Rightarrow> (bool \<times> nm) result" where
  "not_waiting m = andthen m (\<lambda>s. Inr (False, s))"

text \<open>
  \<open>process_client_command\<close>. The flag tells whether the handler of a write went on to wait.
  Words the message does not have keep what the stack held.
\<close>

definition process_client_command :: "env \<Rightarrow> ClientConnection \<Rightarrow> string \<Rightarrow> nm \<Rightarrow> (bool \<times> nm) result" where
  "process_client_command E client_conn command s =
     (let fd = socket_fd client_conn in
      case sscanf3 command (e_junk E ''cmd'', e_junk E ''arg1'', e_junk E ''arg2'') of
        (cmd, arg1, arg2) \<Rightarrow>
          if cmd = ''READ'' then not_waiting (handle_command_read E fd arg1 s)
          else if strncmp_eq 5 cmd ''write'' then handle_command_write E client_conn command arg1 s
          else if cmd = ''INFO'' then not_waiting (handle_command_info E fd arg1 s)
          else if cmd = ''STREAM'' then not_waiting (handle_command_stream E fd arg1 s)
          else if cmd = ''CREATE'' then not_waiting (handle_command_create E fd command arg1 arg2 s)
          else if cmd = ''COPY'' then not_waiting (handle_command_copy E fd arg1 arg2 s)
          else if cmd = ''DELETE'' then not_waiting (handle_command_delete E fd command arg1 s)
          else if cmd = ''list'' then not_waiting (handle_list fd arg1 s)
          else Inr (False, s))"

text \<open>
  One round of the loop of \<open>handle_client\<close>: the thread is reading again, waiting for a
  write, or gone. The buffer is filled without keeping room for the terminator.
\<close>

datatype client_phase = Reading | Waiting | Gone

definition handle_client :: "env \<Rightarrow> ClientConnection \<Rightarrow> nm \<Rightarrow> (client_phase \<times> nm) result" where
  "handle_client E client_conn s =
     (case net_recv E (Conn (socket_fd client_conn)) BUFFER_SIZE s of
        (None, s) \<Rightarrow> Inr (Gone, net_close (Conn (socket_fd client_conn)) s)
      | (Some bs, s) \<Rightarrow>
          if bs = [] then Inr (Gone, net_close (Conn (socket_fd client_conn)) s)
          else
            andthen (terminate BUFFER_SIZE bs) (\<lambda>buffer.
            andthen (process_client_command E client_conn buffer s) (\<lambda>(wait, s).
            Inr (if wait then Waiting else Reading, s))))"

section \<open>Requests reach their handlers\<close>

text \<open>A well-formed request line is dispatched on its first word.\<close>

lemma dispatch_two:
  assumes "word cmd" and "word a"
  shows "sscanf3 (cmd @ '' '' @ a) (x, y, z) = (cmd, a, z)"
  using assms by (simp add: sscanf3_def sscanf_words_Cons sscanf_words_one)

lemma dispatch_three_words:
  assumes "word cmd" and "word a" and "word b"
  shows "sscanf_words (cmd @ '' '' @ a @ '' '' @ b) = [cmd, a, b]"
  using assms by (simp add: sscanf_words_Cons sscanf_words_one)

lemma dispatch_three:
  assumes "word cmd" and "word a" and "word b"
  shows "sscanf3 (cmd @ '' '' @ a @ '' '' @ b) old = (cmd, a, b)"
  using assms by (cases old) (simp add: sscanf3_def sscanf_words_Cons sscanf_words_one)

lemma word_literal: "w \<noteq> [] \<Longrightarrow> list_all (\<lambda>c. c \<notin> set [CHR '' '', CHR 0x09, CHR 0x0A, CHR 0x0B, CHR 0x0C, CHR 0x0D]) w \<Longrightarrow> word w"
  by (simp add: word_def isspace_def)

lemma process_read:
  assumes "word p"
  shows "process_client_command E cc (''READ '' @ p) s = not_waiting (handle_command_read E (socket_fd cc) p s)"
proof -
  have "word ''READ''" by (rule word_literal) simp_all
  from dispatch_two [OF this assms] show ?thesis by (simp add: process_client_command_def)
qed

lemma process_info:
  assumes "word p"
  shows "process_client_command E cc (''INFO '' @ p) s = not_waiting (handle_command_info E (socket_fd cc) p s)"
proof -
  have "word ''INFO''" by (rule word_literal) simp_all
  from dispatch_two [OF this assms] show ?thesis
    by (simp add: process_client_command_def strncmp_eq_def)
qed

lemma process_create:
  assumes "word d" and "word f"
  shows "process_client_command E cc (''CREATE '' @ d @ '' '' @ f) s =
    not_waiting (handle_command_create E (socket_fd cc) (''CREATE '' @ d @ '' '' @ f) d f s)"
proof -
  have "word ''CREATE''" by (rule word_literal) simp_all
  from dispatch_three [OF this assms] show ?thesis
    by (simp add: process_client_command_def strncmp_eq_def)
qed

lemma process_delete:
  assumes "word p"
  shows "process_client_command E cc (''DELETE '' @ p) s =
    not_waiting (handle_command_delete E (socket_fd cc) (''DELETE '' @ p) p s)"
proof -
  have "word ''DELETE''" by (rule word_literal) simp_all
  from dispatch_two [OF this assms] show ?thesis
    by (simp add: process_client_command_def strncmp_eq_def)
qed

lemma process_list:
  assumes "word p"
  shows "process_client_command E cc (''list '' @ p) s = not_waiting (handle_list (socket_fd cc) p s)"
proof -
  have "word ''list''" by (rule word_literal) simp_all
  from dispatch_two [OF this assms] show ?thesis
    by (simp add: process_client_command_def strncmp_eq_def)
qed

text \<open>Anything else, such as the \<open>LIST\<close> of the client program, is ignored without an answer.\<close>

text \<open>
  A message whose first word is no command of the naming server is dropped without an answer
  and without any effect.
\<close>

lemma process_unknown:
  assumes "sscanf_words command = cmd # rest" and "\<not> prefix ''write'' cmd"
    and "cmd \<notin> {''READ'', ''INFO'', ''STREAM'', ''CREATE'', ''COPY'', ''DELETE'', ''list''}"
  shows "process_client_command E cc command s = Inr (False, s)"
proof -
  obtain a b where "sscanf3 command (e_junk E ''cmd'', e_junk E ''arg1'', e_junk E ''arg2'') = (cmd, a, b)"
    using assms(1) by (cases rest; cases "tl rest") (auto simp: sscanf3_def)
  then show ?thesis
    using assms(2,3) by (simp add: process_client_command_def strncmp_eq_prefix)
qed

lemma process_unknown_witness:
  "process_client_command sample_env sample_client ''LIST d'' sample_nm = Inr (False, sample_nm)"
  by (rule process_unknown [of _ "''LIST''" "[''d'']"])
    (simp_all add: sscanf_words_def split_on_def isspace_def)

section \<open>Listing\<close>

lemma send_all_fields:
  "file_trie (send_all c ms s) = file_trie s" "storage_servers (send_all c ms s) = storage_servers s"
  "write_clients (send_all c ms s) = write_clients s" "nm_cache (send_all c ms s) = nm_cache s"
  "replies d (send_all c ms s) = replies d s @ (if d = c then map Text ms else [])"
  unfolding send_all_def by (induction ms arbitrary: s) auto


lemma handle_list_wlp:
  "wlp (\<lambda>s'. \<exists>ps. replies (Conn fd) s' = replies (Conn fd) s @
            map (\<lambda>p. Text (p @ nl)) ps @ [Text (''STOP'' @ nl)] \<and>
          set ps = {p. prefix d p \<and> info_at (file_trie s) p \<noteq> None} \<and>
          sorted_wrt (<) ps \<and> (\<forall>c. c \<noteq> fd \<longrightarrow> replies (Conn c) s' = replies (Conn c) s) \<and>
          file_trie s' = file_trie s \<and> nm_cache s' = nm_cache s \<and>
          storage_servers s' = storage_servers s \<and> write_clients s' = write_clients s)
     (handle_list fd d s)"
proof (cases "list_files (file_trie s) d")
  case (Inl e)
  then show ?thesis by (simp add: handle_list_def)
next
  case (Inr msgs)
  from list_files_lists [OF this] obtain ps where "msgs = map (\<lambda>p. p @ nl) ps" "sorted_wrt (<) ps"
    "set ps = {p. prefix d p \<and> info_at (file_trie s) p \<noteq> None}" by blast
  with Inr show ?thesis
    by (auto simp: handle_list_def send_all_fields comp_def intro!: exI [of _ ps])
qed

text \<open>A listing is answered in full when every node of the trie is at a path of at most 254 bytes.\<close>

definition short_nodes :: "TrieNode \<Rightarrow> bool" where
  "short_nodes t \<longleftrightarrow> (\<forall>p. find_trie_node t p \<noteq> None \<longrightarrow> length p < 255)"

lemma short_nodes_create: "short_nodes create_trie"
  unfolding short_nodes_def
proof (intro allI impI)
  fix p assume "find_trie_node create_trie p \<noteq> None"
  then have "p = []" by (cases p) (simp_all add: create_trie_def create_trie_node_def)
  then show "length p < 255" by simp
qed

lemma short_nodes_put: "short_nodes t \<Longrightarrow> length q < 255 \<Longrightarrow> short_nodes (trie_put q v t)"
  unfolding short_nodes_def using find_trie_node_put by (meson order_le_less_trans prefix_length_le)

lemma handle_list_total:
  assumes short: "short_nodes (file_trie s)"
  shows "\<exists>s'. handle_list fd d s = Inr s'"
proof (cases "find_trie_node (file_trie s) d")
  case None
  then show ?thesis by (simp add: handle_list_def list_files_def)
next
  case (Some n)
  have "\<exists>msgs. traverse_trie n d = Inr msgs"
  proof (rule traverse_trie_total)
    show "length d + length p < 255" if "find_trie_node n p \<noteq> None" for p
      using short [unfolded short_nodes_def, rule_format, of "d @ p"] that Some by (simp add: find_trie_node_append)
  qed
  with Some show ?thesis by (auto simp: handle_list_def list_files_def)
qed

text \<open>
  C30: When every node of the trie is at a path of at most 254 bytes, \<open>list\<close> overflows no buffer and
  answers its client, and nobody else, with one line for every known path that starts with the
  argument, each once, in byte order, followed by STOP; it changes no table. The argument is a
  string prefix, not a directory: \<open>list d\<close> also answers \<open>d2/x\<close>, which is not in \<open>d\<close>.
\<close>

lemma handle_list_lists:
  assumes short: "short_nodes (file_trie s)"
  shows "wp (\<lambda>s'. \<exists>ps. replies (Conn fd) s' = replies (Conn fd) s @
            map (\<lambda>p. Text (p @ nl)) ps @ [Text (''STOP'' @ nl)] \<and>
          set ps = {p. prefix d p \<and> info_at (file_trie s) p \<noteq> None} \<and>
          sorted_wrt (<) ps \<and> (\<forall>c. c \<noteq> fd \<longrightarrow> replies (Conn c) s' = replies (Conn c) s) \<and>
          file_trie s' = file_trie s \<and> nm_cache s' = nm_cache s \<and>
          storage_servers s' = storage_servers s \<and> write_clients s' = write_clients s)
     (handle_list fd d s)"
  using handle_list_total [OF short, of fd d] handle_list_wlp [of fd s d]
  by (auto simp: wp_iff wlp_iff)

definition sibling_nm :: nm where
  "sibling_nm = initial_nm\<lparr>file_trie := trie_put ''d2/x'' leaf_info (trie_put ''d'' dir_info create_trie)\<rparr>"

lemma handle_list_witness:
  "wp (\<lambda>s'. replies (Conn 4) s' = [Text (''d'' @ nl), Text (''d2/x'' @ nl), Text (''STOP'' @ nl)])
     (handle_list 4 ''d'' sibling_nm)"
proof -
  have short: "short_nodes (file_trie sibling_nm)"
    by (simp add: sibling_nm_def short_nodes_put short_nodes_create)
  have create: "info_at create_trie = Map.empty" by (simp add: create_trie_def fun_eq_iff)
  have known: "{p. prefix ''d'' p \<and> info_at (file_trie sibling_nm) p \<noteq> None} = {''d'', ''d2/x''}"
    by (auto simp: sibling_nm_def trie.lookup_update create)
  have ps: "ps = [''d'', ''d2/x'']" if "set ps = {''d'', ''d2/x''}" "sorted_wrt (<) ps" for ps :: "string list"
  proof (rule sorted_distinct_set_unique)
    show "sorted ps" "distinct ps" using that(2) by (simp_all add: strict_sorted_iff)
    show "sorted [''d'', ''d2/x'']" by simp
  qed (use that(1) in simp_all)
  show ?thesis
    using handle_list_lists [OF short, of 4 "''d''"] unfolding known
    by (auto simp: sibling_nm_def initial_nm_def replies_def dest!: ps elim!: wp_mono)
qed

section \<open>Commands of clients and the tables\<close>

lemma not_waiting_effect: "wlp (client_effect s) m \<Longrightarrow> wlp (\<lambda>(w, s'). client_effect s s') (not_waiting m)"
  by (simp add: not_waiting_def)

lemma process_client_command_effect:
  "wlp (\<lambda>(w, s'). client_effect s s') (process_client_command E cc command s)"
proof -
  have list: "wlp (client_effect s) (handle_list fd arg1 s)" for fd arg1
    unfolding handle_list_def
    by (rule wlp_bind_any) (simp add: client_effect_same_server send_all_fields list_all2_refl)
  show ?thesis
    unfolding process_client_command_def Let_def
    by (rule wlp_prod, rule wlp_prod)
      (intro wlp_if_split not_waiting_effect effect.handle_command_read_R effect.handle_command_info_R
        effect.handle_command_stream_R effect.handle_command_create_R effect.handle_command_copy_R
        effect.handle_command_delete_R effect.handle_command_write_R list effect.wlp_pair_done effect.R_refl)
qed

end
