(* ===== verification/NM_System.thy ===== *)
theory NM_System
  imports NM_Dispatch
begin

text \<open>
  The naming server as a whole: threads for clients and storage servers take turns on the shared
  memory. A step is one run of a handler: one command of a client, one look at the table by a client
  that waits for its write, the first message of a storage server, one heartbeat, or the loss of a
  server. Inside a handler the code also blocks on its own connections to storage servers and sleeps;
  what other threads do meanwhile is not modelled.

  A handler that breaks a rule of the C machine ends the process: a step into a crashed system, which
  makes no further step.
\<close>

section \<open>Steps\<close>

record system =
  mem :: nm
  clients :: "nat \<rightharpoonup> ClientConnection \<times> bool"   \<comment> \<open>the flag: waiting for a write\<close>
  servers :: "nat \<rightharpoonup> StorageServerInfo"           \<comment> \<open>connections in the heartbeat loop\<close>
  crashed :: "fault option"

definition initial_system :: system where
  "initial_system = \<lparr>mem = initial_nm, clients = Map.empty, servers = Map.empty, crashed = None\<rparr>"

fun client_state :: "ClientConnection \<Rightarrow> client_phase \<Rightarrow> (ClientConnection \<times> bool) option" where
  "client_state cc Reading = Some (cc, False)"
| "client_state cc Waiting = Some (cc, True)"
| "client_state cc Gone = None"

inductive step :: "env \<Rightarrow> system \<Rightarrow> system \<Rightarrow> bool" for E where
  accept_client: "step E u (u\<lparr>clients := (clients u)(socket_fd cc \<mapsto> (cc, False))\<rparr>)"
    if "crashed u = None" and "clients u (socket_fd cc) = None" and "servers u (socket_fd cc) = None"
| client_command: "step E u (u\<lparr>mem := s, clients := (clients u)(fd := client_state cc ph)\<rparr>)"
    if "crashed u = None" and "clients u fd = Some (cc, False)" and "handle_client E cc (mem u) = Inr (ph, s)"
| client_crash: "step E u (u\<lparr>crashed := Some e\<rparr>)"
    if "crashed u = None" and "clients u fd = Some (cc, False)" and "handle_client E cc (mem u) = Inl e"
| client_wait: "step E u (u\<lparr>mem := s, clients := (clients u)(fd \<mapsto> (cc, \<not> finished))\<rparr>)"
    if "crashed u = None" and "clients u fd = Some (cc, True)" and "write_wait fd (mem u) = (finished, s)"
| server_message: "step E u (u\<lparr>mem := s, servers := (servers u)(fd := reg)\<rparr>)"
    if "crashed u = None" and "clients u fd = None" and "servers u fd = None"
      and "storage_message E fd (mem u) = Inr (reg, s)"
| server_crash: "step E u (u\<lparr>crashed := Some e\<rparr>)"
    if "crashed u = None" and "clients u fd = None" and "servers u fd = None"
      and "storage_message E fd (mem u) = Inl e"
| server_beat: "step E u (u\<lparr>mem := s\<rparr>)"
    if "crashed u = None" and "servers u fd = Some info" and "heartbeat E fd (mem u) = (True, s)"
| server_gone: "step E u (u\<lparr>mem := server_lost fd info s, servers := (servers u)(fd := None)\<rparr>)"
    if "crashed u = None" and "servers u fd = Some info" and "heartbeat E fd (mem u) = (False, s)"

inductive_cases step_cases: "step E u u'"

inductive reachable :: "env \<Rightarrow> system \<Rightarrow> bool" for E where
  start: "reachable E initial_system"
| move: "reachable E u \<Longrightarrow> step E u u' \<Longrightarrow> reachable E u'"

section \<open>What every step respects\<close>

text \<open>Every backup of a row is unset or the address of a row.\<close>

definition backups_known :: "server_link list \<Rightarrow> bool" where
  "backups_known ls \<longleftrightarrow>
     (\<forall>l \<in> set ls. sl_backup1 l \<in> {('''', 0)} \<union> sl_addr ` set ls \<and>
                    sl_backup2 l \<in> {('''', 0)} \<union> sl_addr ` set ls)"

definition memory_ok :: "nm \<Rightarrow> bool" where
  "memory_ok s \<longleftrightarrow> tables_ok s \<and> server_count s \<le> MAX_CONNECTIONS \<and> backups_known (links s)"

definition evolves :: "nm \<Rightarrow> nm \<Rightarrow> bool" where
  "evolves s s' \<longleftrightarrow> server_count s \<le> server_count s' \<and>
     (\<forall>i < server_count s. same_ports (storage_servers s ! i) (storage_servers s' ! i)) \<and>
     (memory_ok s \<longrightarrow> memory_ok s')"

lemma same_ports_refl [simp]: "same_ports x x"
  by (simp add: same_ports_def)

lemma same_ports_trans: "same_ports x y \<Longrightarrow> same_ports y z \<Longrightarrow> same_ports x z"
  by (simp add: same_ports_def)

lemma row_kept_ports: "row_kept x y \<Longrightarrow> same_ports x y"
  by (cases x; cases y) (auto simp: row_kept_def same_ports_def)

lemma row_kept_link: "row_kept x y \<Longrightarrow> link y = link x"
  by (cases x; cases y) (auto simp: row_kept_def link_def)

lemma client_effect_links: "client_effect s s' \<Longrightarrow> links s' = links s"
  unfolding client_effect_def links_def
  by (auto simp: list_all2_conv_all_nth row_kept_link intro: nth_equalityI)

lemma evolves_refl [simp]: "evolves s s"
  by (simp add: evolves_def)

lemma evolves_trans: "evolves s t \<Longrightarrow> evolves t u \<Longrightarrow> evolves s u"
  unfolding evolves_def by (meson le_trans order_less_le_trans same_ports_trans)

lemma client_effect_evolves:
  assumes "client_effect s s'"
  shows "evolves s s'"
proof -
  have "list_all2 row_kept (storage_servers s) (storage_servers s')" and "tables_ok s \<longrightarrow> tables_ok s'"
    using assms by (simp_all add: client_effect_def)
  then show ?thesis
    by (auto simp: evolves_def memory_ok_def client_effect_links [OF assms] list_all2_conv_all_nth row_kept_ports)
qed

interpretation evolution: table_relation evolves
  by unfold_locales
    (blast intro: evolves_refl evolves_trans client_effect_evolves effect.R_trace effect.R_cache effect.R_trie
      effect.R_cut effect.R_home effect.R_queue effect.R_write)+

lemma same_tables_evolves: "same_tables s s' \<Longrightarrow> evolves s s'"
  by (simp add: evolves_def memory_ok_def tables_ok_def same_tables_def links_def)

section \<open>Storage servers\<close>

lemma backups_known_update:
  assumes ls: "backups_known ls" and i: "i < length ls" and addr: "sl_addr l = sl_addr (ls ! i)"
    and b: "sl_backup1 l \<in> {('''', 0)} \<union> sl_addr ` set ls" "sl_backup2 l \<in> {('''', 0)} \<union> sl_addr ` set ls"
  shows "backups_known (ls[i := l])"
proof -
  have "map sl_addr (ls[i := l]) = map sl_addr ls"
    using i addr by (simp add: map_update list_update_same_conv)
  then have "set (map sl_addr (ls[i := l])) = set (map sl_addr ls)" by (rule arg_cong)
  then have eq: "sl_addr ` set (ls[i := l]) = sl_addr ` set ls" by simp
  show ?thesis
    using ls b set_update_subset_insert [of ls i l] unfolding backups_known_def eq by blast
qed

lemma evolves_put_row:
  assumes i: "i < server_count s" and ports: "same_ports (storage_servers s ! i) x"
    and known: "backups_known (links s) \<Longrightarrow> backups_known ((links s)[i := link x])"
  shows "evolves s (put_row i x s)"
proof -
  show ?thesis
    using i ports known by (auto simp: evolves_def memory_ok_def tables_ok_def links_put_row nth_update_if)
qed

text \<open>A change of a row that keeps its address and its backups.\<close>

lemma evolves_same_backups:
  assumes i: "i < server_count s" and ports: "same_ports (storage_servers s ! i) x"
    and same: "sl_backup1 (link x) = sl_backup1 (link (storage_servers s ! i))"
      "sl_backup2 (link x) = sl_backup2 (link (storage_servers s ! i))"
  shows "evolves s (put_row i x s)"
  using i ports
proof (rule evolves_put_row)
  let ?l = "link (storage_servers s ! i)"
  assume known: "backups_known (links s)"
  have nth: "links s ! i = ?l" using i by (rule links_nth)
  have "?l \<in> set (links s)" unfolding nth [symmetric] using i by (intro nth_mem) simp
  with known have "sl_backup1 ?l \<in> {('''', 0)} \<union> sl_addr ` set (links s)"
    "sl_backup2 ?l \<in> {('''', 0)} \<union> sl_addr ` set (links s)" by (simp_all add: backups_known_def)
  moreover have "sl_addr (link x) = sl_addr (links s ! i)"
    using ports by (simp add: nth link_def same_ports_def)
  ultimately show "backups_known ((links s)[i := link x])"
    using known i by (intro backups_known_update) (simp_all add: same)
qed

lemma first_path_evolves:
  assumes "i < server_count s" and "first_path i s = (r, s')"
  shows "evolves s s'"
proof -
  obtain b where "s' = put_row i ((storage_servers s ! i)\<lparr>ss_accessible_paths := b\<rparr>) s"
    using assms(2) by (auto simp: first_path_def Let_def split: prod.splits)
  with assms(1) show ?thesis
    by (auto intro!: evolves_same_backups simp: same_ports_def)
qed

lemma set_backup_evolves:
  assumes i: "i < server_count s" and d: "d < server_count s"
  shows "evolves s (put_row i (set_backup first (storage_servers s ! d) (storage_servers s ! i)) s)"
proof (rule evolves_put_row [OF i])
  let ?x = "storage_servers s ! i" and ?d = "storage_servers s ! d"
  show "same_ports ?x (set_backup first ?d ?x)" by (simp add: set_backup_def same_ports_def)
  have in_links: "link ?x \<in> set (links s)" "link ?d \<in> set (links s)"
    using i d by (auto simp: links_def)
  then have addr: "sl_addr (link ?d) \<in> sl_addr ` set (links s)" by blast
  assume known: "backups_known (links s)"
  with in_links have "sl_backup1 (link ?x) \<in> {('''', 0)} \<union> sl_addr ` set (links s)"
    "sl_backup2 (link ?x) \<in> {('''', 0)} \<union> sl_addr ` set (links s)" by (simp_all add: backups_known_def)
  with known addr i show "backups_known ((links s)[i := link (set_backup first ?d ?x)])"
    by (intro backups_known_update) (auto simp: link_set_backup links_nth)
qed

lemma assign_backup_evolves:
  assumes i: "i < server_count s" and d: "\<And>d. dest = Some d \<Longrightarrow> d < server_count s"
  shows "wlp (evolves s) (assign_backup E first i src dest s)"
proof (cases dest)
  case None
  then show ?thesis by (simp add: assign_backup_def)
next
  case (Some d)
  let ?s1 = "put_row i (set_backup first (storage_servers s ! d) (storage_servers s ! i)) s"
  have s1: "evolves s ?s1" using i assms(2) [OF Some] by (rule set_backup_evolves)
  have cut: "wlp (evolves s)
      (andthen (cut_paths d ?s1) (\<lambda>(f, s). andthen (strcpy 2000 f) (\<lambda>arg2. backup E arg1 arg2 s)))" for arg1
  proof (cases "cut_paths d ?s1")
    case (Inr p)
    then obtain f s2 where p: "cut_paths d ?s1 = Inr (f, s2)" by (cases p) auto
    have "evolves ?s1 s2" using evolution.R_cut [OF p] assms(2) [OF Some] by simp
    with s1 have "evolves s s2" by (rule evolves_trans)
    then have "wlp (evolves s) (andthen (strcpy 2000 f) (\<lambda>arg2. backup E arg1 arg2 s2))"
      by (intro wlp_bind_any evolution.wlp_from [OF _ evolution.backup_R])
    with p show ?thesis by (simp del: wlp_andthen)
  qed simp
  show ?thesis
    unfolding assign_backup_def Some option.case Let_def
    by (rule wlp_option, simp, rule wlp_bind_any, rule cut)
qed

lemma assign_pair_evolves:
  assumes i: "i < server_count s" and d: "\<And>d. d1 = Some d \<or> d2 = Some d \<Longrightarrow> d < server_count s"
  shows "wlp (evolves s) (assign_pair E i d1 d2 src s)"
  unfolding assign_pair_def
proof (rule evolution.wlp_state_bind [OF assign_backup_evolves [OF i]])
  show "d1 = Some d \<Longrightarrow> d < server_count s" for d using d by simp
  fix t assume t: "evolves s t"
  then have "server_count s \<le> server_count t" by (simp add: evolves_def)
  then have "wlp (evolves t) (assign_backup E False i src d2 t)"
    using i d by (intro assign_backup_evolves) (auto intro: order_less_le_trans)
  with t show "wlp (evolves s) (assign_backup E False i src d2 t)" by (rule evolution.wlp_from)
qed

lemma latest_active_less: "d \<in> set (latest_active s) \<Longrightarrow> d < server_count s"
  by (auto simp: latest_active_def dest!: in_set_takeD)

lemma nth_option_in: "nth_option xs k = Some x \<Longrightarrow> x \<in> set xs"
  by (auto simp: nth_option_def split: if_splits)

lemma first_path_bind:
  assumes i: "i < server_count s"
    and go: "\<And>r t. evolves s t \<Longrightarrow> server_count s \<le> server_count t \<Longrightarrow> wlp (evolves t) (f r t)"
  shows "wlp (evolves s) (case first_path i s of (r, t) \<Rightarrow> f r t)"
proof -
  obtain r t where p: "first_path i s = (r, t)" by (cases "first_path i s")
  have t: "evolves s t" using i p by (rule first_path_evolves)
  then have "wlp (evolves t) (f r t)" by (intro go) (simp_all add: evolves_def)
  with p t show ?thesis by (auto intro: evolution.wlp_from)
qed

lemma backup_third_evolves:
  assumes "server_count s = 3" shows "wlp (evolves s) (backup_third E s)"
  unfolding backup_third_def
proof (rule first_path_bind, use assms in simp)
  fix r t assume t: "evolves s t" "server_count s \<le> server_count t"
  show "wlp (evolves t) (andthen (assign_pair E 0 (if_active 1 t) (if_active 2 t) r t) (\<lambda>s.
      case first_path 1 s of (src_folder2, s) \<Rightarrow> assign_pair E 1 (if_active 0 s) (if_active 2 s) src_folder2 s))"
  proof (rule evolution.wlp_state_bind [OF assign_pair_evolves])
    show "0 < server_count t" using t assms by linarith
    show "d < server_count t" if "if_active 1 t = Some d \<or> if_active 2 t = Some d" for d
      using that t assms by (auto simp: if_active_def split: if_splits)
    fix u assume u: "evolves t u"
    then have n: "3 \<le> server_count u" using t assms by (simp add: evolves_def)
    have "wlp (evolves u) (case first_path 1 u of (src_folder2, s) \<Rightarrow> assign_pair E 1 (if_active 0 s) (if_active 2 s) src_folder2 s)"
      by (rule first_path_bind, use n in simp, rule assign_pair_evolves)
        (use n in \<open>auto simp: if_active_def split: if_splits\<close>)
    with u show "wlp (evolves t) (case first_path 1 u of (src_folder2, s) \<Rightarrow> assign_pair E 1 (if_active 0 s) (if_active 2 s) src_folder2 s)"
      by (rule evolution.wlp_from)
  qed
qed

lemma backup_last_evolves:
  assumes n: "3 \<le> server_count s" shows "wlp (evolves s) (backup_last E s)"
  unfolding backup_last_def Let_def
proof (rule first_path_bind)
  show "server_count s - 1 < server_count s" using n by simp
  fix r t assume "server_count s \<le> server_count t"
  then have m: "server_count t - 1 < server_count t" using n by simp
  show "wlp (evolves t) (assign_pair E (server_count t - 1) (nth_option (latest_active t) 0)
      (nth_option (latest_active t) 1) r t)"
    by (rule assign_pair_evolves [OF m]) (auto dest!: nth_option_in latest_active_less)
qed

lemma trigger_backups_evolves: "wlp (evolves s) (trigger_backups E s)"
  unfolding trigger_backups_def
proof (rule evolution.wlp_state_bind)
  show "wlp (evolves s) (if server_count s = 3 then backup_third E s else Inr s)"
    by (rule wlp_if_split) (simp_all add: backup_third_evolves)
  fix t assume "evolves s t"
  then show "wlp (evolves s) (if 3 \<le> server_count t then backup_last E t else Inr t)"
    by (intro wlp_if_split evolution.wlp_from [OF _ backup_last_evolves]) simp_all
qed

lemma add_row_evolves: "wlp (evolves s) (add_row info s)"
proof -
  let ?t = "s\<lparr>storage_servers := storage_servers s @ [fresh_row info]\<rparr>"
  have "memory_ok ?t" if ok: "memory_ok s" and room: "server_count s < MAX_CONNECTIONS"
  proof -
    have "backups_known (links s @ [link (fresh_row info)])"
      using ok by (auto simp: memory_ok_def backups_known_def link_def fresh_row_def)
    then have "backups_known (links ?t)" by (simp add: links_def)
    then show ?thesis using ok room by (simp add: memory_ok_def tables_ok_def)
  qed
  then have "evolves s ?t" if "server_count s < MAX_CONNECTIONS"
    using that by (auto simp: evolves_def nth_append)
  then have "evolves s (?t\<lparr>file_trie := x\<rparr>)" if "server_count s < MAX_CONNECTIONS" for x
    using that by (intro evolution.R_paths)
  then show ?thesis
    by (auto simp: add_row_def intro!: wlp_bind_any simp del: wlp_andthen)
qed

lemma reconnect_evolves:
  assumes i: "i < server_count s" shows "wlp (evolves s) (reconnect E i s)"
proof -
  let ?x = "storage_servers s ! i"
  let ?s1 = "put_row i (?x\<lparr>ss_is_active := 1\<rparr>) s"
  have s1: "evolves s ?s1"
    using i by (rule evolves_same_backups) (simp_all add: same_ports_def link_def)
  have "evolves s (put_row i ((storage_servers t ! i)\<lparr>ss_commands := []\<rparr>) t)"
    if q: "quiet ?s1 t" and rows: "storage_servers t = storage_servers ?s1" for t
  proof -
    have "same_tables ?s1 t" using q rows by (simp add: same_tables_def quiet_def)
    then have t: "evolves s t" by (rule evolves_trans [OF s1 same_tables_evolves])
    have "i < server_count t" using i rows by simp
    then have "evolves t (put_row i ((storage_servers t ! i)\<lparr>ss_commands := []\<rparr>) t)"
      by (rule evolves_same_backups) (simp_all add: same_ports_def link_def)
    with t show ?thesis by (rule evolves_trans)
  qed
  then show ?thesis
    unfolding reconnect_def Let_def replay_commands_def wlp_andthen
    by (intro wlp_mono [OF replay_rows_quiet]) simp
qed

lemma register_server_evolves: "wlp (evolves s) (register_server E fd info s)"
  unfolding register_server_def
proof (rule wlp_bind_any, rule evolution.wlp_state_bind)
  show "wlp (evolves s)
      (case find_index (\<lambda>x. ss_is_active x = 0 \<and> same_ports x info) (storage_servers s) of
         None \<Rightarrow> andthen (add_row info s) (\<lambda>s. trigger_backups E s)
       | Some i \<Rightarrow> reconnect E i s)"
  proof (rule wlp_option)
    show "wlp (evolves s) (andthen (add_row info s) (\<lambda>s. trigger_backups E s))"
      by (rule evolution.wlp_state_bind [OF add_row_evolves])
        (rule evolution.wlp_from [OF _ trigger_backups_evolves])
    show "wlp (evolves s) (reconnect E i s)"
      if "find_index (\<lambda>x. ss_is_active x = 0 \<and> same_ports x info) (storage_servers s) = Some i" for i
      using that by (intro reconnect_evolves) (rule find_index_less)
  qed
  show "wlp (evolves s) (Inr (send_text (Conn fd) ''STORAGE_SERVER'' t))" if "evolves s t" for t
    using that by (simp add: evolution.R_text)
qed

lemma writes_evolves:
  assumes "storage_servers s' = storage_servers s" and "write_client_count s' = write_client_count s"
  shows "evolves s s'"
  using assms by (simp add: evolves_def memory_ok_def tables_ok_def links_def)

lemma notify_write_evolves: "evolves s (notify_write p s)"
  by (rule writes_evolves) (simp_all add: notify_write_def split: option.split)

lemma server_lost_evolves: "evolves s (server_lost fd info s)"
proof -
  have fail: "evolves t (net_close (Conn fd) (fail_writes ip port t))" for t ip port
    by (rule evolution.R_close, rule writes_evolves) (simp_all add: fail_writes_def)
  show ?thesis
  proof (cases "find_index (\<lambda>x. same_ports x info) (storage_servers s)")
    case None
    then show ?thesis using fail by (simp add: server_lost_def)
  next
    case (Some i)
    then have "evolves s (put_row i ((storage_servers s ! i)\<lparr>ss_is_active := 0\<rparr>) s)"
      by (intro evolves_same_backups find_index_less [of "\<lambda>x. same_ports x info"])
        (simp_all add: same_ports_def link_def)
    then show ?thesis using Some fail by (auto simp: server_lost_def intro: evolves_trans)
  qed
qed

lemma backup_data_evolves: "evolves s t \<Longrightarrow> wlp (evolves s) (backup_data E p d x t)"
  unfolding backup_data_def
  by (assumption | simp only: prod.case
      | rule evolution.walk wlp_bind_any evolution.R_io)+

lemma forward_rows_evolves: "evolves s t \<Longrightarrow> wlp (evolves s) (forward_rows E b1 b2 p d xs t)"
proof (induction xs arbitrary: t)
  case (Cons x xs)
  show ?case
    unfolding forward_rows.simps
    by (rule wlp_if_split, rule evolution.wlp_state_bind [OF backup_data_evolves [OF Cons.prems]])
      (simp_all add: Cons.IH Cons.prems)
qed simp

lemma forward_write_evolves: "evolves s t \<Longrightarrow> wlp (evolves s) (forward_write E fd buf t)"
  unfolding forward_write_def Let_def
  by (assumption | simp only: prod.case
      | rule evolution.wlp_recv_case forward_rows_evolves wlp_bind_any wlp_prod)+

lemma storage_message_evolves: "wlp (\<lambda>(r, s'). evolves s s') (storage_message E fd s)"
proof -
  have reg: "wlp (\<lambda>(r, s'). evolves s s')
      (case net_read_info E (Conn fd) t of (ss_info, s) \<Rightarrow>
         andthen (register_server E fd ss_info s) (\<lambda>s. Inr (Some ss_info, s)))" if "evolves s t" for t
  proof -
    have "evolves s (snd (net_read_info E (Conn fd) t))"
      using that by (simp add: net_read_info_def evolution.R_emit)
    from wlp_mono [OF register_server_evolves evolves_trans [OF this]] show ?thesis
      by (simp add: net_read_info_def)
  qed
  show ?thesis
    unfolding storage_message_def Let_def
    by (assumption | simp only: prod.case | rule evolves_refl reg evolution.walk evolution.wlp_state_bind [OF forward_write_evolves]
        evolution.R_close evolves_trans [OF _ notify_write_evolves])+
qed

section \<open>Clients\<close>

lemma handle_client_evolves: "wlp (\<lambda>(ph, s'). evolves s s') (handle_client E cc s)"
proof -
  have cmd: "wlp (\<lambda>(w, s'). evolves t s') (process_client_command E cc buf t)" for buf t
    by (rule wlp_mono [OF process_client_command_effect]) (auto intro: client_effect_evolves)
  have cmd': "wlp (\<lambda>(w, s'). evolves s s') (process_client_command E cc buf t)" if "evolves s t" for buf t
    using that cmd by (rule evolution.wlp_pair_from)
  show ?thesis
    unfolding handle_client_def
    by (assumption | simp only: prod.case | rule evolution.walk evolution.wlp_pair_bind [OF cmd'] wlp_bind_any
        evolution.R_close evolves_refl)+
qed

lemma write_wait_evolves: "write_wait fd s = (f, s') \<Longrightarrow> evolves s s'"
  by (rule writes_evolves) (auto simp: write_wait_def Let_def split: if_splits)

lemma heartbeat_evolves: "heartbeat E fd s = (g, s') \<Longrightarrow> evolves s s'"
  by (auto simp: heartbeat_def split: prod.splits option.splits dest: evolution.R_recv [OF evolves_refl])

section \<open>Invariants of the reachable systems\<close>

lemma step_evolves:
  assumes "step E u u'"
  shows "evolves (mem u) (mem u')"
  using assms
proof cases
  case (client_command fd cc ph s)
  with handle_client_evolves [of "mem u" E cc] show ?thesis by simp
next
  case (client_wait fd cc s finished)
  then show ?thesis by (simp add: write_wait_evolves)
next
  case (server_message fd reg s)
  with storage_message_evolves [of "mem u" E fd] show ?thesis by simp
next
  case (server_beat fd info s)
  then show ?thesis by (simp add: heartbeat_evolves)
next
  case (server_gone fd info s)
  then show ?thesis by (auto intro: evolves_trans heartbeat_evolves server_lost_evolves)
qed simp_all

lemma memory_ok_initial: "memory_ok initial_nm"
  by (simp add: memory_ok_def tables_ok_def initial_nm_def backups_known_def links_def)

text \<open>
  C3: In every reachable system, crashed or not, the two tables the code guards are within their
  arrays of ten rows, servers as well as pending writes, and every backup of a server is unset or the
  address of a registered server. The queues of commands have no guard and no bound here: see
  \<open>full_queue_crashes\<close>.
\<close>

lemma reachable_memory_ok:
  assumes "reachable E u"
  shows "server_count (mem u) \<le> MAX_CONNECTIONS \<and> write_client_count (mem u) \<le> MAX_CONNECTIONS \<and>
    backups_known (links (mem u))"
proof -
  have "memory_ok (mem u)"
    using assms
  proof (induction rule: reachable.induct)
    case start
    then show ?case by (simp add: initial_system_def memory_ok_initial)
  next
    case (move u u')
    then show ?case using step_evolves [OF move(2)] by (simp add: evolves_def)
  qed
  then show ?thesis by (simp add: memory_ok_def tables_ok_def)
qed

text \<open>A run in which a storage server registers.\<close>

definition register_env :: env where
  "register_env = sample_env\<lparr>e_recv := \<lambda>_ _. Some ''REGISTER''\<rparr>"

lemma registering_run:
  "\<exists>u. reachable register_env u \<and> server_count (mem u) = 1 \<and> crashed u = None"
proof -
  obtain s where s: "storage_message register_env 5 initial_nm = Inr (Some owner_row, s)"
    and one: "server_count s = 1"
    by (simp add: storage_message_def net_recv_def net_read_info_def register_env_def sample_env_def c_str_def
        register_server_def reconnect_def add_row_def trigger_backups_def owner_row_def initial_nm_def)
  let ?u = "initial_system\<lparr>mem := s, servers := (servers initial_system)(5 := Some owner_row)\<rparr>"
  have "step register_env initial_system ?u"
    by (rule step.server_message) (use s in \<open>simp_all add: initial_system_def\<close>)
  then have "reachable register_env ?u" by (rule reachable.move [OF reachable.start])
  with one show ?thesis by (intro exI [of _ ?u]) (simp add: initial_system_def)
qed

lemma reachable_memory_ok_witness:
  "\<exists>u :: system. server_count (mem u) = 1 \<and> crashed u = None \<and> backups_known (links (mem u)) \<and>
     write_client_count (mem u) \<le> MAX_CONNECTIONS"
proof -
  obtain u where "reachable register_env u" "server_count (mem u) = 1" "crashed u = None"
    using registering_run by blast
  with reachable_memory_ok [OF this(1)] show ?thesis by blast
qed

section \<open>The queue of commands overflows\<close>

lemma addcommand_full:
  assumes "server_index ip port s = Some i" and "MAX_COMMANDS \<le> ss_command_count (storage_servers s ! i)"
  shows "addcommand ip port command s = Inl Overflow"
  using assms by (simp add: addcommand_def Let_def)

lemma create_backup_full:
  assumes b: "has_backup ip port" and i: "server_index ip port s = Some i"
    and inactive: "ss_is_active (storage_servers s ! i) = 0"
    and h: "home (storage_servers s ! i) = Some h"
    and full: "MAX_COMMANDS \<le> ss_command_count (storage_servers s ! i)"
    and ws: "sscanf_words command = [name, dir_path, file_name]"
    and len: "length name < 100" "length dir_path < 1000" "length file_name < 100"
  shows "create_backup E fd command ip port arg1 s = Inl Overflow"
proof -
  have less: "i < server_count s" using i by (simp add: server_index_Some)
  from cut_paths_wp [OF less h] obtain s1 where cut: "cut_paths i s = Inr (h, s1)"
    and same: "same_server (storage_servers s ! i) (storage_servers s1 ! i)"
    and other: "\<forall>j. j \<noteq> i \<longrightarrow> storage_servers s1 ! j = storage_servers s ! j"
    and count: "server_count s1 = server_count s"
    unfolding wp_iff by auto
  have "server_index ip port s1 = Some i" using cut_paths_index [OF less same other count] i by simp
  moreover have "MAX_COMMANDS \<le> ss_command_count (storage_servers s1 ! i)"
    using full same_server_fields(3) [OF same] by (simp add: ss_command_count_def)
  ultimately have "addcommand ip port c s1 = Inl Overflow" for c by (rule addcommand_full)
  moreover have "check_active_server ip port s = 0" using i inactive by (simp add: check_active_server_def)
  ultimately show ?thesis
    using b i len by (simp add: create_backup_def Let_def backup_home_def cut scan_word_def ws)
qed

lemma create_forward_full:
  assumes answers: "exchanges E (fi_ip dir) nm_port"
    and block: "\<And>s'. storage_servers s' = storage_servers s \<Longrightarrow> create_backup E fd command ip port arg1 s' = Inl Overflow"
  shows "create_forward E fd command arg1 p dir nm_port (ip, port) b2 s = Inl Overflow"
proof -
  let ?k = "length (trace s)"
  let ?s1 = "emit (Connected ?k (fi_ip dir) (htons nm_port)) s"
  let ?s2 = "send_text (Peer ?k) command ?s1"
  have d: "dial E (fi_ip dir) nm_port s = (Dialled ?k, ?s1)"
    using answers by (simp add: exchanges_def dial_def)
  obtain bs where bs: "e_recv E (trace ?s2) (Peer ?k) = Some bs" "length bs < BUFFER_SIZE"
    using answers unfolding exchanges_def by blast
  then have r: "net_recv E (Peer ?k) BUFFER_SIZE ?s2 = (Some bs, emit (Received (Peer ?k) bs) ?s2)"
    by (simp add: net_recv_def)
  show ?thesis
    using bs(2) by (simp add: create_forward_def d r Let_def block)
qed

text \<open>
  A client creates a file while the first backup of the owner is down and 1000 commands are waiting
  for it: the server writes behind the queue.
\<close>

lemma full_queue_crashes:
  assumes live: "crashed u = None" "clients u fd = Some (cc, False)"
    and msg: "e_recv E (trace (mem u)) (Conn (socket_fd cc)) = Some (''CREATE '' @ d @ '' '' @ f)"
    and names: "word d" "word f" "length d < 200" "length f < 50" "CHR 0x00 \<notin> set (d @ f)"
    and coh: "coherent (mem u)" and new: "info_at (file_trie (mem u)) (d @ ''/'' @ f) = None"
    and dir: "info_at (file_trie (mem u)) d = Some dir"
    and owner: "owner_ports dir (mem u) = (nm_port, (ip, port), b2)" "nm_port \<noteq> -1"
      "check_active_server (fi_ip dir) (fi_port_client dir) (mem u) \<noteq> 0"
    and answers: "exchanges E (fi_ip dir) nm_port"
    and b: "has_backup ip port" "server_index ip port (mem u) = Some i"
    and down: "ss_is_active (storage_servers (mem u) ! i) = 0" "home (storage_servers (mem u) ! i) = Some h"
    and full: "MAX_COMMANDS \<le> ss_command_count (storage_servers (mem u) ! i)"
  shows "step E u (u\<lparr>crashed := Some Overflow\<rparr>)"
proof (rule step.client_crash [OF live])
  let ?c = "''CREATE '' @ d @ '' '' @ f" and ?fd = "socket_fd cc"
  let ?s = "emit (Received (Conn ?fd) ?c) (mem u)"
  have recv: "net_recv E (Conn ?fd) BUFFER_SIZE (mem u) = (Some ?c, ?s)"
    using msg names by (simp add: net_recv_def)
  have line: "terminate BUFFER_SIZE ?c = Inr ?c" using names by simp
  have ws: "sscanf_words ?c = [''CREATE'', d, f]"
    using dispatch_three_words [OF word_literal names(1,2), of "''CREATE''"] by simp
  have coh': "coherent ?s" and d: "path_ok d" and new': "info_at (file_trie ?s) (d @ ''/'' @ f) = None"
    using coh new names by (simp_all add: coherent_def path_ok_def)
  have p: "d @ ''/'' @ f = snprintf MAX_FILE_PATH_SIZE (d @ ''/'' @ f)"
    using names by simp
  obtain s1 where run: "handle_command_create E ?fd ?c d f ?s =
      (case info_at (file_trie ?s) d of
         None \<Rightarrow> Inr (insert_log E CLIENT (int ?fd) NS_PORT CREATE ''Directory not found'' FILE_NOT_FOUND
                       (send_text (Conn ?fd) (''Directory not found'' @ nl) s1))
       | Some dir \<Rightarrow>
           (case owner_ports dir ?s of (nm_port, b1, b2) \<Rightarrow>
              if nm_port = -1 then
                Inr (insert_log E CLIENT (int ?fd) NS_PORT CREATE
                      ''No matching storage server found'' SERVER_NOT_FOUND s1)
              else if check_active_server (fi_ip dir) (fi_port_client dir) ?s = 0
              then Inr (send_text (Conn ?fd) ''SERVER NOT ACTIVE'' s1)
              else create_forward E ?fd ?c d (d @ ''/'' @ f) dir nm_port b1 b2 s1))"
    and same: "same_but_cache ?s s1"
    by (rule create_new [OF coh' d p new'])
  have rows: "storage_servers s1 = storage_servers (mem u)"
    using same_but_cacheD [OF same] by simp
  have block: "create_backup E ?fd ?c ip port d s' = Inl Overflow" if "storage_servers s' = storage_servers s1" for s'
  proof (rule create_backup_full [OF b(1) _ _ _ _ ws])
    show "server_index ip port s' = Some i" using b(2) that rows by (simp add: server_index_def)
    show "ss_is_active (storage_servers s' ! i) = 0" "home (storage_servers s' ! i) = Some h"
      "MAX_COMMANDS \<le> ss_command_count (storage_servers s' ! i)" using down full that rows by simp_all
  qed (use names in simp_all)
  have "owner_ports dir ?s = owner_ports dir (mem u)"
    "check_active_server (fi_ip dir) (fi_port_client dir) ?s = check_active_server (fi_ip dir) (fi_port_client dir) (mem u)"
    by (simp_all add: owner_ports_def server_index_def check_active_server_def cong: option.case_cong)
  then have "handle_command_create E ?fd ?c d f ?s = Inl Overflow"
    using owner create_forward_full [where s = s1, OF answers block] by (simp add: run dir del: append_Cons)
  then show "handle_client E cc (mem u) = Inl Overflow"
    using names(1,2)
    by (simp add: handle_client_def recv line process_create not_waiting_def del: append_Cons)
qed

text \<open>The sample memory with 1000 commands waiting for the backup.\<close>

definition full_system :: "nat \<Rightarrow> system" where
  "full_system n = initial_system\<lparr>clients := [4 \<mapsto> (sample_client, False)],
     mem := backed_nm\<lparr>storage_servers := [owner_row\<lparr>ss_backup_ip1 := ''10.0.0.2'', ss_backup_port1 := 6002\<rparr>,
       spare_row\<lparr>ss_commands := replicate n ''CREATE e/d old.c''\<rparr>]\<rparr>\<rparr>"

lemma full_queue_crashes_witness:
  "step (sample_env\<lparr>e_recv := \<lambda>_ _. Some ''CREATE d g.c''\<rparr>) (full_system MAX_COMMANDS)
     ((full_system MAX_COMMANDS)\<lparr>crashed := Some Overflow\<rparr>)"
  using coherent_backed
  by (intro full_queue_crashes [where d = "''d''" and f = "''g.c''" and dir = dir_info and i = 1 and h = "''e''"
        and fd = 4 and cc = sample_client and nm_port = 5001 and ip = "''10.0.0.2''" and port = 6002])
    (simp_all add: full_system_def initial_system_def word_def isspace_def coherent_def cache_view_def
      owner_ports_def server_index_def check_active_server_def exchanges_def sample_env_def dir_info_def
      owner_row_def spare_row_def has_backup_def home_def strtok_first_def Let_def ss_command_count_def)

text \<open>
  C24: Servers are never forgotten: along every run the table only grows, and a row keeps its
  address and its three ports for good.
\<close>

lemma servers_persist:
  assumes "(step E)\<^sup>*\<^sup>* u v"
  shows "server_count (mem u) \<le> server_count (mem v) \<and>
    (\<forall>i < server_count (mem u). same_ports (storage_servers (mem u) ! i) (storage_servers (mem v) ! i))"
proof -
  have "evolves (mem u) (mem v)"
    using assms by (induction rule: rtranclp_induct) (auto intro: evolves_trans step_evolves)
  then show ?thesis by (simp add: evolves_def)
qed

lemma servers_persist_witness:
  "server_count (mem initial_system) \<le>
     server_count (mem (initial_system\<lparr>clients := [4 \<mapsto> (sample_client, False)]\<rparr>))"
proof -
  have "step sample_env initial_system
      (initial_system\<lparr>clients := (clients initial_system)(socket_fd sample_client \<mapsto> (sample_client, False))\<rparr>)"
    by (rule step.accept_client) (simp_all add: initial_system_def)
  then have "(step sample_env)\<^sup>*\<^sup>* initial_system (initial_system\<lparr>clients := [4 \<mapsto> (sample_client, False)]\<rparr>)"
    by (simp add: initial_system_def sample_client_def r_into_rtranclp)
  from servers_persist [OF this] show ?thesis by simp
qed

text \<open>
  C25: No message of any client changes an address, the activity or the backups of a storage
  server; the queues of waiting commands only grow at their ends.
\<close>

lemma clients_keep_servers:
  "wlp (\<lambda>(w, s'). links s' = links s \<and>
          (\<forall>i < server_count s. prefix (ss_commands (storage_servers s ! i)) (ss_commands (storage_servers s' ! i))))
     (process_client_command E cc command s)"
proof (rule wlp_mono [OF process_client_command_effect], clarify)
  fix w s' assume eff: "client_effect s s'"
  have "prefix (ss_commands (storage_servers s ! i)) (ss_commands (storage_servers s' ! i))"
    if "i < server_count s" for i
  proof -
    have "row_kept (storage_servers s ! i) (storage_servers s' ! i)"
      using eff that by (simp add: client_effect_def list_all2_nthD)
    then show ?thesis
      by (cases "storage_servers s ! i"; cases "storage_servers s' ! i") (auto simp: row_kept_def)
  qed
  with client_effect_links [OF eff] show "links s' = links s \<and>
      (\<forall>i < server_count s. prefix (ss_commands (storage_servers s ! i)) (ss_commands (storage_servers s' ! i)))"
    by simp
qed

lemma clients_keep_servers_witness:
  "wlp (\<lambda>(w, s'). links s' = links sample_nm) (process_client_command sample_env sample_client ''INFO d'' sample_nm)"
  using clients_keep_servers [of sample_nm sample_env sample_client "''INFO d''"]
  by (rule wlp_mono) auto

end
