(* ===== verification/SS_Disk.thy ===== *)
theory SS_Disk
  imports World
begin

text \<open>
  The state of a storage server process and the file system calls it makes.

  The disk is a map from files to their content; \<open>h_path\<close> of the host says which file a path
  name denotes from a working directory, so that two names of one file are one file here. What
  the operating system decides (permissions, a full disk, input errors, the order of directory
  entries, the effect of a shell command) belongs to the host, an argument of every operation
  as the environment of \<^theory_text>\<open>World\<close> is.

  The tables of path names are the lists of their used rows; the rows behind
  \<open>num_files_being_accessed\<close>, \<open>num_files_being_read\<close> and \<open>num_paths\<close> are never read.
\<close>

section \<open>Files\<close>

datatype node = Regular string | Folder

type_synonym disk = "string \<rightharpoonup> node"

record filestat =
  st_mode :: "32 word"
  st_nlink :: int
  st_uid :: int
  st_gid :: int
  st_size :: int
  st_mtime :: int

record host = env +
  h_path :: "string \<Rightarrow> string \<Rightarrow> string"
  h_open :: "event list \<Rightarrow> string \<Rightarrow> bool"
  h_ioerr :: "event list \<Rightarrow> bool"
  h_fwrite :: "event list \<Rightarrow> nat \<Rightarrow> nat"
  h_send :: "event list \<Rightarrow> bool"
  h_remove :: "event list \<Rightarrow> string \<Rightarrow> bool"
  h_system :: "event list \<Rightarrow> string \<Rightarrow> string \<Rightarrow> disk \<Rightarrow> int \<times> disk"
  h_chdir :: "event list \<Rightarrow> string \<Rightarrow> bool"
  h_readdir :: "event list \<Rightarrow> string \<Rightarrow> string list option"
  h_stat :: "event list \<Rightarrow> string \<Rightarrow> filestat"
  h_strftime :: "int \<Rightarrow> string"
  h_int :: "string \<Rightarrow> int"
  h_local_ip :: "event list \<Rightarrow> string option"

section \<open>The process\<close>

record ss = world +
  cwd :: string
  disk :: disk
  files_being_accessed :: "string list"
  files_being_read :: "string list"
  accessible_paths :: "string list"
  extract_result :: string
  global_nm_ip :: string
  global_nm_port :: int
  global_dir_path :: string
  ac :: int

abbreviation MAX_PATHS :: nat where "MAX_PATHS \<equiv> 4026"
abbreviation MAX_WRITE_SIZE :: nat where "MAX_WRITE_SIZE \<equiv> 4096"
abbreviation CHUNK_SIZE :: nat where "CHUNK_SIZE \<equiv> 64"

definition initial_ss :: ss where
  "initial_ss = \<lparr>trace = [], cwd = '''', disk = Map.empty, files_being_accessed = [], files_being_read = [],
     accessible_paths = [], extract_result = '''', global_nm_ip = '''', global_nm_port = 0,
     global_dir_path = '''', ac = 0\<rparr>"

definition file_at :: "host \<Rightarrow> string \<Rightarrow> ss \<Rightarrow> string" where
  "file_at E p s = h_path E (cwd s) p"

definition node_at :: "host \<Rightarrow> string \<Rightarrow> ss \<Rightarrow> node option" where
  "node_at E p s = disk s (file_at E p s)"

definition content :: "string \<Rightarrow> ss \<Rightarrow> string" where
  "content k s = (case disk s k of Some (Regular c) \<Rightarrow> c | _ \<Rightarrow> '''')"

text \<open>The content of a path that names a regular file.\<close>

definition file_content :: "host \<Rightarrow> string \<Rightarrow> ss \<Rightarrow> string option" where
  "file_content E p s = (case node_at E p s of Some (Regular c) \<Rightarrow> Some c | _ \<Rightarrow> None)"

section \<open>Opening\<close>

text \<open>
  \<open>open(p, O_RDONLY)\<close>, \<open>fopen(p, "a")\<close>, \<open>fopen(p, "w")\<close> and
  \<open>open(p, O_WRONLY | O_CREAT | O_EXCL)\<close>: the file opened, and the disk afterwards.
  A folder can be opened for reading only; reading it fails at once.
\<close>

definition open_read :: "host \<Rightarrow> string \<Rightarrow> ss \<Rightarrow> string option \<times> ss" where
  "open_read E p s =
     (let k = file_at E p s in
      if disk s k \<noteq> None \<and> h_open E (trace s) k then (Some k, emit (Syscall ''open'' p) s)
      else (None, emit (SysFail ''open'') s))"

definition open_write :: "host \<Rightarrow> string \<Rightarrow> (string \<Rightarrow> string) \<Rightarrow> string \<Rightarrow> ss \<Rightarrow> string option \<times> ss" where
  "open_write E name start p s =
     (let k = file_at E p s in
      if disk s k \<noteq> Some Folder \<and> h_open E (trace s) k
      then (Some k, emit (Syscall name p) (s\<lparr>disk := (disk s)(k \<mapsto> Regular (start (content k s)))\<rparr>))
      else (None, emit (SysFail name) s))"

definition fopen_append :: "host \<Rightarrow> string \<Rightarrow> ss \<Rightarrow> string option \<times> ss" where
  "fopen_append E p s = open_write E ''fopen'' (\<lambda>c. c) p s"

definition fopen_trunc :: "host \<Rightarrow> string \<Rightarrow> ss \<Rightarrow> string option \<times> ss" where
  "fopen_trunc E p s = open_write E ''fopen'' (\<lambda>_. '''') p s"

definition open_excl :: "host \<Rightarrow> string \<Rightarrow> ss \<Rightarrow> string option \<times> ss" where
  "open_excl E p s =
     (if disk s (file_at E p s) = None then open_write E ''open'' (\<lambda>_. '''') p s
      else (None, emit (SysFail ''open'') s))"

section \<open>Reading and writing\<close>

text \<open>
  \<open>fwrite(data, 1, n, file)\<close>: the number of bytes taken. The library buffers them; they are
  counted as written here.
\<close>

definition c_fwrite :: "host \<Rightarrow> string \<Rightarrow> string \<Rightarrow> ss \<Rightarrow> nat \<times> ss" where
  "c_fwrite E k data s =
     (let n = min (length data) (h_fwrite E (trace s) (length data))
      in (n, emit (Syscall ''write'' k)
              (s\<lparr>disk := (disk s)(k \<mapsto> Regular (content k s @ take n data))\<rparr>)))"

text \<open>
  The loop \<open>while ((n = read(fd, buffer, sizeof(buffer))) > 0) send(sock, buffer, n, 0)\<close>, by
  what is left of the file: a \<open>read\<close> takes a full buffer of a regular file unless less is left.
\<close>

function send_blocks :: "host \<Rightarrow> chan \<Rightarrow> string \<Rightarrow> ss \<Rightarrow> ss" where
  "send_blocks E c rest s =
     (if rest = [] \<or> h_ioerr E (trace s) then s
      else send_blocks E c (drop BUFFER_SIZE rest) (send_text c (take BUFFER_SIZE rest) s))"
  by pat_completeness auto
termination by (relation "measure (\<lambda>(E, c, rest, s). length rest)") auto

declare send_blocks.simps [simp del]

text \<open>The loop that writes received data in chunks: false when a chunk was not taken.\<close>

function write_chunks :: "host \<Rightarrow> string \<Rightarrow> string \<Rightarrow> ss \<Rightarrow> bool \<times> ss" where
  "write_chunks E k rest s =
     (if rest = [] then (True, s)
      else (case c_fwrite E k (take CHUNK_SIZE rest) s of
              (n, s) \<Rightarrow> if n < length (take CHUNK_SIZE rest) then (False, s)
                        else write_chunks E k (drop CHUNK_SIZE rest) s))"
  by pat_completeness auto
termination by (relation "measure (\<lambda>(E, k, rest, s). length rest)") auto

declare write_chunks.simps [simp del]

text \<open>\<open>stat\<close>: the mode bits besides the type of the file are the host's.\<close>

definition S_IFDIR :: "32 word" where "S_IFDIR = 0x4000"
definition S_IFREG :: "32 word" where "S_IFREG = 0x8000"

unbundle bit_operations_syntax

definition c_stat :: "host \<Rightarrow> string \<Rightarrow> ss \<Rightarrow> filestat option" where
  "c_stat E p s =
     (case node_at E p s of
        None \<Rightarrow> None
      | Some n \<Rightarrow>
          let st = h_stat E (trace s) (file_at E p s) in
          Some (st\<lparr>st_mode := (st_mode st AND 0x0FFF) OR (if n = Folder then S_IFDIR else S_IFREG),
                   st_size := (case n of Regular c \<Rightarrow> int (length c) | Folder \<Rightarrow> st_size st)\<rparr>))"

definition S_ISDIR :: "32 word \<Rightarrow> bool" where
  "S_ISDIR m = (m AND 0xF000 = S_IFDIR)"

definition S_ISREG :: "32 word \<Rightarrow> bool" where
  "S_ISREG m = (m AND 0xF000 = S_IFREG)"

definition c_system :: "host \<Rightarrow> string \<Rightarrow> ss \<Rightarrow> int \<times> ss" where
  "c_system E cmd s =
     (case h_system E (trace s) (cwd s) cmd (disk s) of
        (r, d) \<Rightarrow> (r, emit (Syscall ''system'' cmd) (s\<lparr>disk := d\<rparr>)))"

definition c_chdir :: "host \<Rightarrow> string \<Rightarrow> ss \<Rightarrow> bool \<times> ss" where
  "c_chdir E p s =
     (if h_chdir E (trace s) (file_at E p s)
      then (True, emit (Syscall ''chdir'' p) (s\<lparr>cwd := file_at E p s\<rparr>))
      else (False, emit (SysFail ''chdir'') s))"

definition c_remove :: "host \<Rightarrow> string \<Rightarrow> string \<Rightarrow> ss \<Rightarrow> bool \<times> ss" where
  "c_remove E name p s =
     (let k = file_at E p s in
      if disk s k \<noteq> None \<and> h_remove E (trace s) k
      then (True, emit (Syscall name p) (s\<lparr>disk := (disk s)(k := None)\<rparr>))
      else (False, emit (SysFail name) s))"

section \<open>What the calls leave alone\<close>

text \<open>Everything but the trace; everything but the trace and the disk.\<close>

definition same_ss :: "ss \<Rightarrow> ss \<Rightarrow> bool" where
  "same_ss s s' \<longleftrightarrow> s' = s\<lparr>trace := trace s'\<rparr>"

definition same_tables_ss :: "ss \<Rightarrow> ss \<Rightarrow> bool" where
  "same_tables_ss s s' \<longleftrightarrow> s' = s\<lparr>trace := trace s', disk := disk s'\<rparr>"

lemma same_ss_refl [simp, intro]: "same_ss s s"
  by (simp add: same_ss_def)

lemma same_ssI: "s' = s\<lparr>trace := tr\<rparr> \<Longrightarrow> same_ss s s'"
  by (simp add: same_ss_def)

lemma same_ssE:
  assumes "same_ss s s'"
  obtains tr where "s' = s\<lparr>trace := tr\<rparr>"
  using assms by (simp add: same_ss_def)

lemma same_tables_ssI: "s' = s\<lparr>trace := tr, disk := d\<rparr> \<Longrightarrow> same_tables_ss s s'"
  by (simp add: same_tables_ss_def)

lemma same_tables_ssE:
  assumes "same_tables_ss s s'"
  obtains tr d where "s' = s\<lparr>trace := tr, disk := d\<rparr>"
  using assms by (simp add: same_tables_ss_def)

lemma same_ss_trans [trans]: "same_ss s t \<Longrightarrow> same_ss t u \<Longrightarrow> same_ss s u"
  by (elim same_ssE) (auto intro!: same_ssI)

lemma same_ss_tables: "same_ss s t \<Longrightarrow> same_tables_ss s t"
  by (elim same_ssE) (simp add: same_tables_ss_def)

lemma same_tables_ss_trans [trans]: "same_tables_ss s t \<Longrightarrow> same_tables_ss t u \<Longrightarrow> same_tables_ss s u"
  by (elim same_tables_ssE) (auto intro!: same_tables_ssI)

lemma same_tables_ssD:
  assumes "same_tables_ss s s'"
  shows "cwd s' = cwd s" "files_being_accessed s' = files_being_accessed s"
    "files_being_read s' = files_being_read s" "accessible_paths s' = accessible_paths s"
    "global_nm_ip s' = global_nm_ip s" "global_nm_port s' = global_nm_port s"
    "global_dir_path s' = global_dir_path s" "ac s' = ac s" "extract_result s' = extract_result s"
  by (rule same_tables_ssE [OF assms], simp)+

lemmas same_ssD = same_tables_ssD [OF same_ss_tables]

lemma same_ss_disk: "same_ss s s' \<Longrightarrow> disk s' = disk s"
  by (elim same_ssE) simp

lemma same_ss_emit [intro, simp]: "same_ss s (emit ev s)"
  by (simp add: same_ss_def emit_def)

lemma same_ss_send [intro, simp]:
  "same_ss s (send_text c t s)" "same_ss s (net_send c p s)" "same_ss s (net_close c s)"
  by (simp_all add: send_text_def net_send_def net_close_def)

lemma same_ss_recv: "net_recv E c n s = (r, s') \<Longrightarrow> same_ss s s'"
  by (auto simp: net_recv_def split: option.splits)

lemma same_ss_dial: "dial E ip port s = (d, s') \<Longrightarrow> same_ss s s'"
  by (auto simp: dial_def split: if_splits)

lemma emit_disk [simp]:
  "disk (emit ev s) = disk s" "cwd (emit ev s) = cwd s"
  "files_being_accessed (emit ev s) = files_being_accessed s" "files_being_read (emit ev s) = files_being_read s"
  by (simp_all add: emit_def)

lemma content_emit [simp]: "content k (emit ev s) = content k s"
  by (simp add: content_def)

lemma content_update [simp]:
  "content k (s\<lparr>disk := d\<rparr>) = (case d k of Some (Regular c) \<Rightarrow> c | _ \<Rightarrow> '''')"
  by (simp add: content_def)

section \<open>A file is sent completely\<close>

function blocks :: "nat \<Rightarrow> string \<Rightarrow> string list" where
  "blocks n s = (if s = [] \<or> n = 0 then [] else take n s # blocks n (drop n s))"
  by pat_completeness auto
termination by (relation "measure (\<lambda>(n, s). length s)") auto

declare blocks.simps [simp del]

lemma blocks_concat: "0 < n \<Longrightarrow> concat (blocks n s) = s"
proof (induction n s rule: blocks.induct)
  case (1 n s)
  then show ?case by (subst blocks.simps) simp
qed

lemma blocks_length: "b \<in> set (blocks n s) \<Longrightarrow> length b \<le> n \<and> b \<noteq> []"
proof (induction n s rule: blocks.induct)
  case (1 n s)
  have "b \<in> set (if s = [] \<or> n = 0 then [] else take n s # blocks n (drop n s))"
    using 1(2) by (subst (asm) blocks.simps)
  with 1(1) show ?case by (auto split: if_splits)
qed

lemma blocks_Nil [simp]: "blocks n [] = []"
  by (simp add: blocks.simps)

lemma blocks_short: "s \<noteq> [] \<Longrightarrow> length s \<le> n \<Longrightarrow> blocks n s = [s]"
  by (cases n) (subst blocks.simps; simp)+

lemma send_blocks_same: "same_ss s (send_blocks E c rest s)"
proof (induction E c rest s rule: send_blocks.induct)
  case (1 E c rest s)
  then show ?case
    by (subst send_blocks.simps) (auto intro: same_ss_trans [OF same_ss_send(1)])
qed

lemma send_blocks_sends:
  assumes "\<And>tr. \<not> h_ioerr E tr"
  shows "trace (send_blocks E c rest s) = trace s @ map (\<lambda>b. Sent c (Text b)) (blocks BUFFER_SIZE rest)"
proof (induction "length rest" arbitrary: rest s rule: less_induct)
  case less
  show ?case
  proof (cases "rest = []")
    case True
    then show ?thesis by (simp add: send_blocks.simps)
  next
    case False
    with less [of "drop BUFFER_SIZE rest"] assms show ?thesis
      by (subst send_blocks.simps, subst blocks.simps) simp
  qed
qed

lemma sent_on_texts [simp]: "sent_on c (map (\<lambda>b. Sent d (Text b)) bs) = (if d = c then map Text bs else [])"
  by (induction bs) auto

section \<open>Data is written completely\<close>

lemma c_fwrite_all:
  assumes "length data \<le> h_fwrite E (trace s) (length data)"
  shows "c_fwrite E k data s = (length data, emit (Syscall ''write'' k)
           (s\<lparr>disk := (disk s)(k \<mapsto> Regular (content k s @ data))\<rparr>))"
  unfolding c_fwrite_def using assms by (simp add: Let_def min_absorb1)

lemma c_fwrite_tables: "c_fwrite E k data s = (n, s') \<Longrightarrow> same_tables_ss s s'"
  by (auto simp: c_fwrite_def Let_def emit_def same_tables_ss_def)

text \<open>Writing to a file sends nothing.\<close>

definition syscalls :: "event list \<Rightarrow> bool" where
  "syscalls es \<longleftrightarrow> (\<forall>e \<in> set es. \<exists>a b. e = Syscall a b)"

definition silent :: "ss \<Rightarrow> ss \<Rightarrow> bool" where
  "silent s s' \<longleftrightarrow> (\<exists>es. trace s' = trace s @ es \<and> syscalls es)"

lemma syscalls_simps [simp]:
  "syscalls []" "syscalls (e # es) \<longleftrightarrow> (\<exists>a b. e = Syscall a b) \<and> syscalls es"
  "syscalls (es @ fs) \<longleftrightarrow> syscalls es \<and> syscalls fs"
  by (auto simp: syscalls_def)

lemma syscalls_silent:
  "syscalls es \<Longrightarrow> sent_on c es = []" "syscalls es \<Longrightarrow> deliveries m es = []" "syscalls es \<Longrightarrow> peers m es = m"
  by (induction es) auto

lemma silent_replies: "silent s s' \<Longrightarrow> replies c s' = replies c s"
  by (auto simp: silent_def replies_def syscalls_silent)

lemma silent_trans: "silent s t \<Longrightarrow> silent t u \<Longrightarrow> silent s u"
  unfolding silent_def by (metis append.assoc syscalls_simps(3))

lemma c_fwrite_silent: "c_fwrite E k data s = (n, s') \<Longrightarrow> silent s s'"
  by (auto simp: c_fwrite_def Let_def silent_def)

lemma write_chunks_frame:
  "write_chunks E k rest s = (ok, s') \<Longrightarrow> same_tables_ss s s' \<and> silent s s'"
proof (induction "length rest" arbitrary: rest s rule: less_induct)
  case less
  show ?case
  proof (cases "rest = []")
    case True
    with less(2) show ?thesis by (auto simp: write_chunks.simps same_tables_ss_def silent_def)
  next
    case False
    obtain n t where w: "c_fwrite E k (take CHUNK_SIZE rest) s = (n, t)" by fastforce
    have "same_tables_ss t s' \<and> silent t s'"
    proof (cases "n < length (take CHUNK_SIZE rest)")
      case True
      with less(2) False w show ?thesis
        by (subst (asm) write_chunks.simps) (auto simp: same_tables_ss_def silent_def)
    next
      case ge: False
      from less(2) False w ge have "write_chunks E k (drop CHUNK_SIZE rest) t = (ok, s')"
        by (subst (asm) write_chunks.simps) (simp split: if_splits)
      then show ?thesis by (rule less(1) [rotated]) (use False in simp)
    qed
    with c_fwrite_tables [OF w] c_fwrite_silent [OF w] show ?thesis
      by (blast intro: same_tables_ss_trans silent_trans)
  qed
qed

lemmas write_chunks_tables = write_chunks_frame [THEN conjunct1]
lemmas write_chunks_silent = write_chunks_frame [THEN conjunct2]

text \<open>On a disk that takes all data the chunks add up to the data.\<close>

lemma write_chunks_all:
  assumes all: "\<And>tr n. n \<le> h_fwrite E tr n" and k: "disk s k = Some (Regular old)"
    and run: "write_chunks E k rest s = (ok, s')"
  shows "ok \<and> disk s' = (disk s)(k \<mapsto> Regular (old @ rest))"
  using k run
proof (induction "length rest" arbitrary: rest s old rule: less_induct)
  case less
  show ?case
  proof (cases "rest = []")
    case True
    with less(2,3) show ?thesis by (auto simp: write_chunks.simps)
  next
    case False
    let ?c = "take CHUNK_SIZE rest"
    define t where "t = emit (Syscall ''write'' k) (s\<lparr>disk := (disk s)(k \<mapsto> Regular (old @ ?c))\<rparr>)"
    have w: "c_fwrite E k ?c s = (length ?c, t)"
      using c_fwrite_all [where data = ?c and k = k and s = s, OF all] less(2) by (simp add: t_def content_def del: length_take)
    have "write_chunks E k (drop CHUNK_SIZE rest) t = (ok, s')"
      using less(3) False w by (subst (asm) write_chunks.simps) (simp del: length_take)
    moreover have "disk t k = Some (Regular (old @ ?c))" by (simp add: t_def)
    ultimately have "ok \<and> disk s' = (disk t)(k \<mapsto> Regular ((old @ ?c) @ drop CHUNK_SIZE rest))"
      using False by (intro less(1)) auto
    then show ?thesis by (simp add: t_def)
  qed
qed

end
