(* ===== verification/SS_Access.thy ===== *)
theory SS_Access
  imports SS_Disk Cache
begin

text \<open>
  The two tables of \<open>file_manager.c\<close> that say which files clients are writing
  (\<open>files_being_accessed\<close>) and reading (\<open>files_being_read\<close>). A row is an array of
  \<open>BUFFER_SIZE\<close> bytes; a file that is read by two clients has two rows.
\<close>

section \<open>The operations\<close>

definition add_accessible_path :: "string \<Rightarrow> ss \<Rightarrow> ss" where
  "add_accessible_path path s =
     (if length (files_being_accessed s) < MAX_PATHS
      then s\<lparr>files_being_accessed := files_being_accessed s @ [strncpy BUFFER_SIZE path]\<rparr>
      else s)"

definition add_accessible_path2 :: "string \<Rightarrow> ss \<Rightarrow> ss" where
  "add_accessible_path2 path s =
     (if length (files_being_read s) < MAX_PATHS
      then s\<lparr>files_being_read := files_being_read s @ [strncpy BUFFER_SIZE path]\<rparr>
      else s)"

text \<open>The search all loops over a table make: the first row equal to the path.\<close>

fun find_row :: "string \<Rightarrow> string list \<Rightarrow> nat option result" where
  "find_row path [] = Inr None"
| "find_row path (r # rs) =
     andthen (arr_streq BUFFER_SIZE r path) (\<lambda>eq.
       if eq then Inr (Some 0) else andthen (find_row path rs) (\<lambda>k. Inr (map_option Suc k)))"

text \<open>Take row \<open>i\<close> out: the later rows move up by one.\<close>

definition delete_row :: "nat \<Rightarrow> string list \<Rightarrow> string list" where
  "delete_row i rows = take (length rows - 1) (shift_left i (length rows - 1 - i) rows)"

definition delete_accessible_path :: "string \<Rightarrow> ss \<Rightarrow> ss result" where
  "delete_accessible_path path s =
     andthen (find_row path (files_being_accessed s)) (\<lambda>r.
       case r of
         None \<Rightarrow> Inr s
       | Some i \<Rightarrow> Inr (s\<lparr>files_being_accessed := delete_row i (files_being_accessed s)\<rparr>))"

definition delete_accessible_path2 :: "string \<Rightarrow> ss \<Rightarrow> ss result" where
  "delete_accessible_path2 path s =
     andthen (find_row path (files_being_read s)) (\<lambda>r.
       case r of
         None \<Rightarrow> Inr s
       | Some i \<Rightarrow> Inr (s\<lparr>files_being_read := delete_row i (files_being_read s)\<rparr>))"

definition is_prefix :: "string \<Rightarrow> string \<Rightarrow> bool" where
  "is_prefix p s = (if length s < length p then False else strncmp_eq (length p) p s)"

text \<open>Some row of a table starts with the path.\<close>

fun prefix_row :: "string \<Rightarrow> string list \<Rightarrow> bool result" where
  "prefix_row path [] = Inr False"
| "prefix_row path (r # rs) =
     andthen (arr_get BUFFER_SIZE r) (\<lambda>r. if is_prefix path r then Inr True else prefix_row path rs)"

section \<open>What they do\<close>

text \<open>Every row holds a terminated string.\<close>

definition rows_ok :: "string list \<Rightarrow> bool" where
  "rows_ok rows = list_all (\<lambda>r. length r < BUFFER_SIZE) rows"

definition access_ok :: "ss \<Rightarrow> bool" where
  "access_ok s \<longleftrightarrow> rows_ok (files_being_accessed s) \<and> rows_ok (files_being_read s) \<and>
     length (files_being_accessed s) \<le> MAX_PATHS \<and> length (files_being_read s) \<le> MAX_PATHS"

text \<open>A name that fits a row, with its terminator, is searched for without a fault.\<close>

definition path_fits :: "string \<Rightarrow> bool" where
  "path_fits p \<longleftrightarrow> length p < BUFFER_SIZE"

lemma find_row_fits: "path_fits p \<Longrightarrow> find_row p rows = Inr (find_index (\<lambda>r. r = p) rows)"
  by (induction rows) (auto simp: path_fits_def arr_streq_def)

lemma find_row_rows_ok: "rows_ok rows \<Longrightarrow> find_row p rows = Inr r \<Longrightarrow> r = find_index (\<lambda>r. r = p) rows"
  by (induction rows arbitrary: r) (auto simp: rows_ok_def arr_streq_def andthen_eq_Inr split: if_splits)

lemma is_prefix_eq [simp]: "is_prefix p s = prefix p s"
proof (cases "length s < length p")
  case True
  then have "\<not> prefix p s" using prefix_length_le [of p s] by linarith
  with True show ?thesis by (simp add: is_prefix_def)
next
  case False
  then show ?thesis by (auto simp: is_prefix_def strncmp_eq_def prefix_def) (metis append_take_drop_id)
qed

lemma prefix_row_ok [simp]: "rows_ok rows \<Longrightarrow> prefix_row p rows = Inr (\<exists>r \<in> set rows. prefix p r)"
  by (induction rows) (auto simp: rows_ok_def)

lemma delete_row_first:
  assumes "find_index (\<lambda>r. r = p) rows = Some i"
  shows "delete_row i rows = remove1 p rows"
proof -
  from assms have i: "i < length rows" and p: "rows ! i = p" and first: "\<forall>j < i. rows ! j \<noteq> p"
    by (simp_all add: find_index_Some)
  have "p \<notin> set (take i rows)"
    using first i by (auto simp: in_set_conv_nth)
  moreover have "rows = take i rows @ p # drop (Suc i) rows"
    using id_take_nth_drop [OF i] p by simp
  ultimately have "remove1 p rows = take i rows @ drop (Suc i) rows"
    by (metis remove1_append remove1.simps(2))
  then show ?thesis
    unfolding delete_row_def by (subst take_shift_left) (use i in auto)
qed

lemma delete_rows:
  "(case find_index (\<lambda>r. r = p) rows of None \<Rightarrow> rows | Some i \<Rightarrow> delete_row i rows) = remove1 p rows"
  by (auto simp: delete_row_first find_index_None remove1_idem split: option.splits)

lemma delete_accessible_path_fits:
  "path_fits p \<Longrightarrow> delete_accessible_path p s = Inr (s\<lparr>files_being_accessed := remove1 p (files_being_accessed s)\<rparr>)"
  using delete_rows [where p = p and rows = "files_being_accessed s"]
  by (auto simp: delete_accessible_path_def find_row_fits split: option.splits)

lemma delete_accessible_path2_fits:
  "path_fits p \<Longrightarrow> delete_accessible_path2 p s = Inr (s\<lparr>files_being_read := remove1 p (files_being_read s)\<rparr>)"
  using delete_rows [where p = p and rows = "files_being_read s"]
  by (auto simp: delete_accessible_path2_def find_row_fits split: option.splits)

lemma rows_ok_snoc: "rows_ok rows \<Longrightarrow> length p < BUFFER_SIZE \<Longrightarrow> rows_ok (rows @ [strncpy BUFFER_SIZE p])"
  by (simp add: rows_ok_def)

lemma rows_ok_remove1: "rows_ok rows \<Longrightarrow> rows_ok (remove1 p rows)"
  by (auto simp: rows_ok_def list_all_iff dest: notin_set_remove1 [THEN contrapos_pp] set_remove1_subset [THEN subsetD])

end
