(* ===== verification/SS_Sample.thy ===== *)
theory SS_Sample
  imports SS_Access
begin

text \<open>
  A storage server with a folder and a file on its disk, and a host that grants every call, on
  which the properties are applied.
\<close>

definition sample_stat :: filestat where
  "sample_stat = \<lparr>st_mode = 0x1A4, st_nlink = 1, st_uid = 1000, st_gid = 1000, st_size = 0, st_mtime = 0\<rparr>"

definition sample_host :: host where
  "sample_host = \<lparr>e_socket = \<lambda>_. True, e_pton = \<lambda>_. True, e_connect = \<lambda>_ _ _. True,
     e_recv = \<lambda>_ _. Some ''data'', e_recv_info = undefined, e_log = \<lambda>_. True,
     e_junk = \<lambda>_. ''xyz'', e_getcwd = \<lambda>_. Some ''/srv'', e_stat = \<lambda>_ _. Some True,
     h_path = \<lambda>_ p. p, h_open = \<lambda>_ _. True, h_ioerr = \<lambda>_. False, h_fwrite = \<lambda>_ n. n,
     h_send = \<lambda>_. True, h_remove = \<lambda>_ _. True, h_system = \<lambda>_ _ _ d. (0, d),
     h_chdir = \<lambda>_ _. True,
     h_readdir = \<lambda>_ p. (if p = ''d'' then Some [''.'', ''f.c'', ''..''] else None),
     h_stat = \<lambda>_ _. sample_stat, h_strftime = \<lambda>_. ''Jan 01 00:00'', h_int = \<lambda>_. 0,
     h_local_ip = \<lambda>_. Some ''10.0.0.1''\<rparr>"

definition sample_ss :: ss where
  "sample_ss = initial_ss\<lparr>disk := [''d'' \<mapsto> Folder, ''d/f.c'' \<mapsto> Regular ''hello''],
     global_nm_ip := ''10.0.0.9'', global_nm_port := 8081, global_dir_path := ''d'', ac := 5001\<rparr>"

lemma sample_host_fields [simp]:
  "e_socket sample_host = (\<lambda>_. True)" "e_pton sample_host = (\<lambda>_. True)"
  "e_connect sample_host = (\<lambda>_ _ _. True)" "e_recv sample_host = (\<lambda>_ _. Some ''data'')"
  "h_path sample_host = (\<lambda>_ p. p)" "h_open sample_host = (\<lambda>_ _. True)" "h_ioerr sample_host = (\<lambda>_. False)"
  "h_fwrite sample_host = (\<lambda>_ n. n)" "h_remove sample_host = (\<lambda>_ _. True)"
  "h_system sample_host = (\<lambda>_ _ _ d. (0, d))" "h_stat sample_host = (\<lambda>_ _. sample_stat)"
  by (simp_all add: sample_host_def)

lemma sample_ss_fields [simp]:
  "trace sample_ss = []" "files_being_accessed sample_ss = []" "files_being_read sample_ss = []"
  "disk sample_ss = [''d'' \<mapsto> Folder, ''d/f.c'' \<mapsto> Regular ''hello'']" "cwd sample_ss = ''''"
  "accessible_paths sample_ss = []" "global_nm_ip sample_ss = ''10.0.0.9''" "global_nm_port sample_ss = 8081"
  "global_dir_path sample_ss = ''d''" "ac sample_ss = 5001" "replies c sample_ss = []"
  by (simp_all add: sample_ss_def initial_ss_def replies_def)

lemma access_ok_sample [simp]: "access_ok sample_ss"
  by (simp add: access_ok_def rows_ok_def)

lemma sample_file_at [simp]: "file_at sample_host p s = p"
  by (simp add: file_at_def)

lemma sample_content [simp]:
  "file_content sample_host ''d/f.c'' sample_ss = Some ''hello''" "node_at sample_host ''nope'' sample_ss = None"
  by (simp_all add: file_content_def node_at_def)

text \<open>The host whose connections bring the given messages; and one whose shell fails.\<close>

definition scripted :: "string list \<Rightarrow> host" where
  "scripted ms = sample_host\<lparr>e_recv := \<lambda>tr c. Some (if received c tr < length ms then ms ! received c tr else '''')\<rparr>"

lemma script_scripted [simp]: "script (scripted ms) c ms"
  by (simp add: script_def scripted_def)

lemma scripted_fields [simp]:
  "e_socket (scripted ms) = (\<lambda>_. True)" "e_pton (scripted ms) = (\<lambda>_. True)"
  "e_connect (scripted ms) = (\<lambda>_ _ _. True)" "h_path (scripted ms) = (\<lambda>_ p. p)"
  "h_open (scripted ms) = (\<lambda>_ _. True)" "h_ioerr (scripted ms) = (\<lambda>_. False)"
  "h_fwrite (scripted ms) = (\<lambda>_ n. n)" "h_system (scripted ms) = (\<lambda>_ _ _ d. (0, d))"
  "h_local_ip (scripted ms) = (\<lambda>_. Some ''10.0.0.1'')"
  by (simp_all add: scripted_def sample_host_def)

definition failing_shell :: host where
  "failing_shell = sample_host\<lparr>h_system := \<lambda>_ _ _ d. (1, d)\<rparr>"

end
