(* ===== verification/SS_Files.thy ===== *)
theory SS_Files
  imports SS_Sample
begin

text \<open>
  The file operations of \<open>file_manager.c\<close> a storage server runs for its clients and for the
  naming server, and the create, delete and copy handlers of \<open>storage_server.c\<close>.

  \<open>read_file\<close>, \<open>write_file\<close> and \<open>delete_file_or_directory\<close> are cut between their critical
  sections, and a write where it opens the file; the pieces are run one after the other here and
  interleaved in \<^theory_text>\<open>SS_Threads\<close>.
\<close>

section \<open>Reading\<close>

definition read_check :: "string \<Rightarrow> chan \<Rightarrow> ss \<Rightarrow> (bool \<times> ss) result" where
  "read_check file_path c s =
     andthen (find_row file_path (files_being_accessed s)) (\<lambda>r.
       if r \<noteq> None then Inr (False, send_text c ''Another client is writing to this file'' s)
       else Inr (True, s))"

definition read_send :: "host \<Rightarrow> string \<Rightarrow> chan \<Rightarrow> ss \<Rightarrow> bool \<times> ss" where
  "read_send E file_path c s =
     (case open_read E file_path s of
        (None, s) \<Rightarrow> (False, s)
      | (Some k, s) \<Rightarrow> (True, send_blocks E c (content k s) s))"

definition read_file :: "host \<Rightarrow> string \<Rightarrow> chan \<Rightarrow> ss \<Rightarrow> ss result" where
  "read_file E file_path c s =
     andthen (read_check file_path c s) (\<lambda>(go, s).
       if \<not> go then Inr s
       else
         (case read_send E file_path c (add_accessible_path2 file_path s) of
            (False, s) \<Rightarrow> Inr s
          | (True, s) \<Rightarrow> delete_accessible_path2 file_path s))"

definition stream_audio_file :: "host \<Rightarrow> string \<Rightarrow> chan \<Rightarrow> ss \<Rightarrow> ss result" where
  "stream_audio_file E file_path c s = read_file E file_path c s"

definition stream_audio_file_binary :: "host \<Rightarrow> string \<Rightarrow> chan \<Rightarrow> ss \<Rightarrow> ss" where
  "stream_audio_file_binary E file_path c s =
     (case open_read E file_path s of
        (None, s) \<Rightarrow> s
      | (Some k, s) \<Rightarrow> send_blocks E c (content k s) s)"

section \<open>Writing\<close>

definition write_check :: "string \<Rightarrow> chan \<Rightarrow> ss \<Rightarrow> (bool \<times> ss) result" where
  "write_check file_path c s =
     andthen (find_row file_path (files_being_read s)) (\<lambda>r.
       if r \<noteq> None then Inr (False, send_text c ''Another client is reading this file'' s)
       else Inr (True, s))"

text \<open>The flag in the path name, and the path name before it.\<close>

definition sync_target :: "string \<Rightarrow> bool \<times> string" where
  "sync_target file_path =
     (case strstr '' --sync'' file_path of
        None \<Rightarrow> (False, file_path)
      | Some rest \<Rightarrow> (True, take (length file_path - length rest) file_path))"

text \<open>
  Receive the data, find the target, open it; an asynchronous write is answered here. The result:
  the flag, the target, the data and the open file.
\<close>

definition write_open ::
  "host \<Rightarrow> string \<Rightarrow> chan \<Rightarrow> ss \<Rightarrow> ((bool \<times> string \<times> string \<times> string) option \<times> ss) result" where
  "write_open E file_path c s =
     (case net_recv E c MAX_WRITE_SIZE s of
        (None, s) \<Rightarrow> Inr (None, s)
      | (Some bs, s) \<Rightarrow> andthen (terminate MAX_WRITE_SIZE bs) (\<lambda>_.
          case sync_target file_path of (sync, target) \<Rightarrow>
          (case fopen_append E target s of
             (None, s) \<Rightarrow> Inr (None, s)
           | (Some k, s) \<Rightarrow>
               Inr (Some (sync, target, bs, k),
                    if \<not> sync then send_text c ''Data received for asynchronous writing'' s else s))))"

definition write_sync :: "host \<Rightarrow> chan \<Rightarrow> string \<Rightarrow> string \<Rightarrow> ss \<Rightarrow> bool \<times> ss" where
  "write_sync E c k bs s =
     (case c_fwrite E k bs s of
        (n, s) \<Rightarrow> if n < length bs then (False, s)
                  else (True, send_text c ''synchronous writing done'' s))"

definition write_data ::
  "host \<Rightarrow> string \<Rightarrow> chan \<Rightarrow> ss \<Rightarrow> ((string \<times> string) option \<times> ss) result" where
  "write_data E file_path c s =
     andthen (write_open E file_path c s) (\<lambda>(r, s).
       case r of
         None \<Rightarrow> Inr (None, s)
       | Some (sync, target, bs, k) \<Rightarrow>
           (case (if \<not> sync then write_chunks E k bs s else write_sync E c k bs s) of
              (ok, s) \<Rightarrow> Inr (if ok then Some (target, bs) else None, s)))"

text \<open>The report to the naming server: where the file is, then the data.\<close>

definition notify_written :: "host \<Rightarrow> string option \<Rightarrow> int \<Rightarrow> string \<Rightarrow> string \<Rightarrow> ss \<Rightarrow> ss result" where
  "notify_written E ip port file_path data s =
     (case dial E (global_nm_ip s) (global_nm_port s) s of
        (Dialled k, s) \<Rightarrow>
          (case ip of
             None \<Rightarrow> Inl NullDeref
           | Some ip \<Rightarrow>
               Inr (net_close (Peer k) (send_text (Peer k) data
                 (send_text (Peer k)
                   (snprintf BUFFER_SIZE (ip @ '' '' @ dec port @ '' '' @ file_path)) s))))
      | (_, s) \<Rightarrow> Inr s)"

definition write_file :: "host \<Rightarrow> string \<Rightarrow> chan \<Rightarrow> string option \<Rightarrow> int \<Rightarrow> ss \<Rightarrow> ss result" where
  "write_file E file_path c ip port s =
     andthen (write_check file_path c s) (\<lambda>(go, s).
       if \<not> go then Inr s
       else
         andthen (write_data E file_path c (add_accessible_path file_path s)) (\<lambda>(r, s).
           case r of
             None \<Rightarrow> Inr s
           | Some (target, data) \<Rightarrow>
               andthen (delete_accessible_path target s) (\<lambda>s.
                 notify_written E ip port target data s)))"

definition copy_to_file :: "host \<Rightarrow> string \<Rightarrow> chan \<Rightarrow> ss \<Rightarrow> ss result" where
  "copy_to_file E file_path c s =
     (case net_recv E c MAX_WRITE_SIZE s of
        (None, s) \<Rightarrow> Inr s
      | (Some bs, s) \<Rightarrow> andthen (terminate MAX_WRITE_SIZE bs) (\<lambda>_.
          case sync_target file_path of (sync, target) \<Rightarrow>
          (case fopen_trunc E target s of
             (None, s) \<Rightarrow> Inr s
           | (Some k, s) \<Rightarrow>
               if \<not> sync then
                 Inr (snd (write_chunks E k bs (send_text c ''Data received for asynchronous writing'' s)))
               else
                 Inr (snd (c_fwrite E k bs (send_text c ''Data received for synchronous writing'' s))))))"

section \<open>Information\<close>

definition perm_char :: "32 word \<Rightarrow> 32 word \<Rightarrow> char \<Rightarrow> char" where
  "perm_char mode flag ch = (if mode AND flag \<noteq> 0 then ch else CHR ''-'')"

definition permissions :: "32 word \<Rightarrow> string" where
  "permissions mode =
     (if S_ISDIR mode then CHR ''d'' else CHR ''-'') #
     [perm_char mode 0x100 CHR ''r'', perm_char mode 0x80 CHR ''w'', perm_char mode 0x40 CHR ''x'',
      perm_char mode 0x20 CHR ''r'', perm_char mode 0x10 CHR ''w'', perm_char mode 0x8 CHR ''x'',
      perm_char mode 0x4 CHR ''r'', perm_char mode 0x2 CHR ''w'', perm_char mode 0x1 CHR ''x'']"

definition get_file_info :: "host \<Rightarrow> string \<Rightarrow> chan \<Rightarrow> ss \<Rightarrow> ss" where
  "get_file_info E file_path c s =
     (case c_stat E file_path s of
        None \<Rightarrow> s
      | Some st \<Rightarrow>
          send_text c (snprintf BUFFER_SIZE
            (permissions (st_mode st) @ '' '' @ dec (st_nlink st) @ '' '' @ dec (st_uid st) @ '' '' @
             dec (st_gid st) @ '' '' @ dec (st_size st) @ '' '' @ h_strftime E (st_mtime st) @ '' '' @
             file_path)) s)"

section \<open>Creating\<close>

definition create_file :: "host \<Rightarrow> string \<Rightarrow> string \<Rightarrow> chan \<Rightarrow> ss \<Rightarrow> ss result" where
  "create_file E file_path file_name c s =
     (let full_path = snprintf BUFFER_SIZE (file_path @ ''/'' @ file_name);
          dot = strrchr (CHR ''.'') file_name
      in if dot \<noteq> None \<and> dot \<noteq> Some 0 then
           (case strrchr (CHR ''/'') full_path of
              None \<Rightarrow> Inl Overflow
            | Some n \<Rightarrow>
                let dir_path = take n full_path;
                    s = (if c_stat E dir_path s = None
                         then snd (c_system E (snprintf 5000 (''mkdir -p '' @ dir_path)) s) else s)
                in (case open_excl E full_path s of
                      (fd, s) \<Rightarrow>
                        Inr (send_text c (if fd \<noteq> None then ''File created successfully''
                                          else ''File created failyfully'') s)))
         else
           (case c_system E (snprintf 5000 (''mkdir -p '' @ full_path)) s of
              (result, s) \<Rightarrow>
                if result \<noteq> 0 then Inr s else Inr (send_text c ''Directory created successfully'' s)))"

definition handle_create :: "host \<Rightarrow> chan \<Rightarrow> string \<Rightarrow> string \<Rightarrow> ss \<Rightarrow> ss" where
  "handle_create E c path1 path2 s =
     (case open_write E ''open'' (\<lambda>x. x) (snprintf BUFFER_SIZE (path1 @ ''/'' @ path2)) s of
        (fd, s) \<Rightarrow> send_text c (if fd \<noteq> None then ''CREATE: Success'' @ nl else ''CREATE: Failed'' @ nl) s)"

section \<open>Deleting\<close>

definition delete_check :: "string \<Rightarrow> chan \<Rightarrow> ss \<Rightarrow> (bool \<times> ss) result" where
  "delete_check path c s =
     andthen (prefix_row path (files_being_accessed s)) (\<lambda>busy.
       if busy then Inr (False, send_text c ''Cannot delete, a client is writing to a file in this directory'' s)
       else Inr (True, s))"

definition delete_check2 :: "string \<Rightarrow> chan \<Rightarrow> ss \<Rightarrow> (bool \<times> ss) result" where
  "delete_check2 path c s =
     andthen (prefix_row path (files_being_read s)) (\<lambda>busy.
       if busy then Inr (False, send_text c ''Cannot delete, a client is reading a file in this directory'' s)
       else Inr (True, s))"

definition delete_node :: "host \<Rightarrow> string \<Rightarrow> chan \<Rightarrow> ss \<Rightarrow> ss" where
  "delete_node E path c s =
     (case c_stat E path s of
        None \<Rightarrow> s
      | Some st \<Rightarrow>
          if S_ISDIR (st_mode st) then
            (case c_system E (snprintf BUFFER_SIZE (''trash-put '' @ path)) s of
               (result, s) \<Rightarrow> if result \<noteq> 0 then s else send_text c ''Directory deleted successfully'' s)
          else send_text c ''File deleted successfully'' (snd (c_remove E ''remove'' path s)))"

definition delete_file_or_directory :: "host \<Rightarrow> string \<Rightarrow> chan \<Rightarrow> ss \<Rightarrow> ss result" where
  "delete_file_or_directory E path c s =
     andthen (delete_check path c s) (\<lambda>(go, s).
       if \<not> go then Inr s
       else andthen (delete_check2 path c s) (\<lambda>(go, s).
         if \<not> go then Inr s else Inr (delete_node E path c s)))"

definition handle_delete :: "host \<Rightarrow> chan \<Rightarrow> string \<Rightarrow> ss \<Rightarrow> ss" where
  "handle_delete E c path s =
     (case (case c_stat E path s of
              None \<Rightarrow> (False, s)
            | Some st \<Rightarrow> c_remove E (if S_ISDIR (st_mode st) then ''rmdir'' else ''unlink'') path s) of
        (ok, s) \<Rightarrow> send_text c (if ok then ''DELETE: Success'' @ nl else ''DELETE: Failed'' @ nl) s)"

section \<open>Copying on one server\<close>

text \<open>
  The loop that copies a file block by block, by what is left of the source; what
  \<open>write\<close> or \<open>fwrite\<close> did not take is dropped.
\<close>

function copy_blocks :: "host \<Rightarrow> string \<Rightarrow> string \<Rightarrow> ss \<Rightarrow> ss" where
  "copy_blocks E k rest s =
     (if rest = [] \<or> h_ioerr E (trace s) then s
      else copy_blocks E k (drop BUFFER_SIZE rest) (snd (c_fwrite E k (take BUFFER_SIZE rest) s)))"
  by pat_completeness auto
termination by (relation "measure (\<lambda>(E, k, rest, s). length rest)") auto

declare copy_blocks.simps [simp del]

definition copy_file :: "host \<Rightarrow> string \<Rightarrow> string \<Rightarrow> ss \<Rightarrow> ss" where
  "copy_file E source_path dest_path s =
     (case open_read E source_path s of
        (None, s) \<Rightarrow> s
      | (Some src, s) \<Rightarrow>
          (case open_write E ''open'' (\<lambda>_. '''') dest_path s of
             (None, s) \<Rightarrow> s
           | (Some dest, s) \<Rightarrow> copy_blocks E dest (content src s) s))"

definition handle_copy :: "host \<Rightarrow> chan \<Rightarrow> string \<Rightarrow> string \<Rightarrow> ss \<Rightarrow> ss" where
  "handle_copy E c source_path dest_path s =
     (case open_read E source_path s of
        (None, s) \<Rightarrow> send_text c (''COPY: Source file not found'' @ nl) s
      | (Some src, s) \<Rightarrow>
          (case fopen_trunc E dest_path s of
             (None, s) \<Rightarrow> send_text c (''COPY: Unable to create destination file'' @ nl) s
           | (Some dest, s) \<Rightarrow>
               send_text c (''COPY: Success'' @ nl) (copy_blocks E dest (content src s) s)))"

section \<open>Reads\<close>

lemma read_check_eq:
  "path_fits p \<Longrightarrow> read_check p c s =
     Inr (if p \<in> set (files_being_accessed s)
          then (False, send_text c ''Another client is writing to this file'' s) else (True, s))"
  by (auto simp: read_check_def find_row_fits find_index_None split: option.splits)

lemma write_check_eq:
  "path_fits p \<Longrightarrow> write_check p c s =
     Inr (if p \<in> set (files_being_read s)
          then (False, send_text c ''Another client is reading this file'' s) else (True, s))"
  by (auto simp: write_check_def find_row_fits find_index_None split: option.splits)

lemma add_fits:
  "path_fits p \<Longrightarrow> length (files_being_read s) < MAX_PATHS \<Longrightarrow>
     add_accessible_path2 p s = s\<lparr>files_being_read := files_being_read s @ [p]\<rparr>"
  "path_fits p \<Longrightarrow> length (files_being_accessed s) < MAX_PATHS \<Longrightarrow>
     add_accessible_path p s = s\<lparr>files_being_accessed := files_being_accessed s @ [p]\<rparr>"
  by (simp_all add: path_fits_def add_accessible_path_def add_accessible_path2_def)

lemma rows_ok_append: "rows_ok rows \<Longrightarrow> path_fits p \<Longrightarrow> rows_ok (rows @ [p])"
  by (simp add: rows_ok_def path_fits_def)

lemma file_at_tables [simp]:
  "file_at E p (s\<lparr>files_being_read := r\<rparr>) = file_at E p s"
  "file_at E p (s\<lparr>files_being_accessed := r\<rparr>) = file_at E p s"
  "file_at E p (s\<lparr>trace := tr\<rparr>) = file_at E p s" "file_at E p (s\<lparr>disk := d\<rparr>) = file_at E p s"
  by (simp_all add: file_at_def)

lemma file_content_Some: "file_content E p s = Some t \<longleftrightarrow> disk s (file_at E p s) = Some (Regular t)"
  by (auto simp: file_content_def node_at_def split: option.splits node.splits)

lemma open_read_Some:
  assumes "disk s (file_at E p s) \<noteq> None" and "h_open E (trace s) (file_at E p s)"
  shows "open_read E p s = (Some (file_at E p s), emit (Syscall ''open'' p) s)"
  using assms by (simp add: open_read_def Let_def)

lemma open_read_None: "node_at E p s = None \<Longrightarrow> open_read E p s = (None, emit (SysFail ''open'') s)"
  by (simp add: open_read_def Let_def node_at_def)

lemma read_file_serves:
  assumes fits: "path_fits p" and room: "length (files_being_read s) < MAX_PATHS"
    and free: "p \<notin> set (files_being_accessed s)" and t: "file_content E p s = Some t"
    and grant: "\<And>tr. h_open E tr (file_at E p s)" and noerr: "\<And>tr. \<not> h_ioerr E tr"
  shows "wp (\<lambda>s'. replies c s' = replies c s @ map Text (blocks BUFFER_SIZE t) \<and>
            mset (files_being_read s') = mset (files_being_read s) \<and>
            files_being_accessed s' = files_being_accessed s \<and> disk s' = disk s)
     (read_file E p c s)"
proof -
  let ?k = "file_at E p s" and ?rows = "files_being_read s @ [p]"
  let ?o = "emit (Syscall ''open'' p) (s\<lparr>files_being_read := ?rows\<rparr>)"
  let ?t = "send_blocks E c t ?o"
  have k: "disk s ?k = Some (Regular t)" using t by (simp add: file_content_Some)
  have "read_send E p c (s\<lparr>files_being_read := ?rows\<rparr>) = (True, ?t)"
    by (simp add: read_send_def open_read_def Let_def k grant content_def)
  moreover have same: "same_ss ?o ?t" by (rule send_blocks_same)
  ultimately have "read_file E p c s = Inr (?t\<lparr>files_being_read := remove1 p ?rows\<rparr>)"
    using free
    by (simp add: read_file_def read_check_eq add_fits fits room delete_accessible_path2_fits same_ssD [OF same])
  moreover have "replies c ?t = replies c s @ map Text (blocks BUFFER_SIZE t)"
    by (simp add: replies_def send_blocks_sends noerr)
  ultimately show ?thesis
    by (simp add: same_ssD [OF same] same_ss_disk [OF same] replies_def del: remove1_append)
qed

text \<open>
  C6: A read of a file nobody writes sends exactly the bytes of the file, in order and in pieces
  of at most one buffer, and leaves the disk and the reader and writer tables as they were.
\<close>

lemma read_file_wp:
  assumes fits: "path_fits p" and room: "length (files_being_read s) < MAX_PATHS"
    and free: "p \<notin> set (files_being_accessed s)" and t: "file_content E p s = Some t"
    and grant: "\<And>tr. h_open E tr (file_at E p s)" and noerr: "\<And>tr. \<not> h_ioerr E tr"
  shows "wp (\<lambda>s'. (\<exists>bs. replies c s' = replies c s @ map Text bs \<and> concat bs = t \<and>
              (\<forall>b \<in> set bs. length b \<le> BUFFER_SIZE)) \<and>
            mset (files_being_read s') = mset (files_being_read s) \<and>
            files_being_accessed s' = files_being_accessed s \<and> disk s' = disk s)
     (read_file E p c s)"
  by (rule wp_mono [OF read_file_serves [OF assms]])
    (auto simp: blocks_concat blocks_length intro!: exI [of _ "blocks BUFFER_SIZE t"])

lemma read_file_witness:
  "wp (\<lambda>s'. \<exists>bs. replies (Conn 5) s' = map Text bs \<and> concat bs = ''hello'')
     (read_file sample_host ''d/f.c'' (Conn 5) sample_ss)"
  using read_file_wp [of "''d/f.c''" sample_ss sample_host "''hello''" "Conn 5"]
  by (auto simp: path_fits_def elim!: wp_mono)

text \<open>A read that cannot open its file keeps its row.\<close>

lemma read_file_missing:
  assumes "path_fits p" and "length (files_being_read s) < MAX_PATHS"
    and "p \<notin> set (files_being_accessed s)" and none: "node_at E p s = None"
  shows "read_file E p c s =
    Inr (emit (SysFail ''open'') (s\<lparr>files_being_read := files_being_read s @ [p]\<rparr>))"
proof -
  have "read_send E p c (s\<lparr>files_being_read := files_being_read s @ [p]\<rparr>) =
      (False, emit (SysFail ''open'') (s\<lparr>files_being_read := files_being_read s @ [p]\<rparr>))"
    using none by (simp add: read_send_def open_read_None node_at_def)
  with assms show ?thesis by (simp add: read_file_def read_check_eq add_fits)
qed

lemma write_file_refused:
  assumes "path_fits p" and "p \<in> set (files_being_read s)"
  shows "write_file E p c ip port s = Inr (send_text c ''Another client is reading this file'' s)"
  using assms by (simp add: write_file_def write_check_eq)

section \<open>Writes\<close>

lemma sync_target_async: "\<not> sublist '' --sync'' p \<Longrightarrow> sync_target p = (False, p)"
  using strstr_None [of "'' --sync''" p] by (simp add: sync_target_def)

lemma sync_target_unflagged: "sync_target p = (sync, target) \<Longrightarrow> \<not> sublist '' --sync'' target"
  by (auto simp: sync_target_def strstr_None strstr_take split: option.splits)

lemma sync_target_flag:
  assumes "CHR '' '' \<notin> set u"
  shows "sync_target (u @ '' --sync'') = (True, u)"
proof -
  have "strstr '' --sync'' (u @ '' --sync'') = Some '' --sync''"
    using assms by (induction u) (subst strstr.simps; simp)+
  then show ?thesis by (simp add: sync_target_def)
qed

lemma fopen_append_ok:
  assumes "disk s (file_at E p s) \<noteq> Some Folder" and "h_open E (trace s) (file_at E p s)"
  shows "fopen_append E p s = (Some (file_at E p s), emit (Syscall ''fopen'' p)
           (s\<lparr>disk := (disk s)(file_at E p s \<mapsto> Regular (content (file_at E p s) s))\<rparr>))"
  using assms by (simp add: fopen_append_def open_write_def Let_def)

text \<open>What the peer sent, when it sent something that leaves room for the terminator.\<close>

definition got :: "'e env_scheme \<Rightarrow> chan \<Rightarrow> string \<Rightarrow> 'a world_scheme \<Rightarrow> bool" where
  "got E c bs s \<longleftrightarrow> e_recv E (trace s) c = Some bs \<and> length bs < BUFFER_SIZE"

lemma got_recv:
  "got E c bs s \<Longrightarrow> net_recv E c BUFFER_SIZE s = (Some bs, emit (Received c bs) s)"
  by (simp add: got_def net_recv_def)

lemma got_length: "got E c bs s \<Longrightarrow> length bs < BUFFER_SIZE"
  by (simp add: got_def)

text \<open>The state after the data of a write went into the file.\<close>

definition appended :: "host \<Rightarrow> string \<Rightarrow> string \<Rightarrow> ss \<Rightarrow> disk" where
  "appended E p bs s = (disk s)(file_at E p s \<mapsto> Regular (content (file_at E p s) s @ bs))"

lemma write_data_async:
  assumes got: "got E c bs s" and async: "\<not> sublist '' --sync'' p"
    and dest: "disk s (file_at E p s) \<noteq> Some Folder" and grant: "\<And>tr. h_open E tr (file_at E p s)"
    and all: "\<And>tr n. n \<le> h_fwrite E tr n"
  shows "\<exists>es. write_data E p c s = Inr (Some (p, bs), s\<lparr>disk := appended E p bs s,
      trace := trace s @ [Received c bs, Syscall ''fopen'' p,
        Sent c (Text ''Data received for asynchronous writing'')] @ es\<rparr>) \<and> syscalls es"
proof -
  let ?k = "file_at E p s"
  define s1 where "s1 = send_text c ''Data received for asynchronous writing''
    (emit (Syscall ''fopen'' p) (emit (Received c bs) s\<lparr>disk := (disk s)(?k \<mapsto> Regular (content ?k s))\<rparr>))"
  have at: "file_at E p (emit (Received c bs) s) = ?k" by (simp add: file_at_def)
  have k1: "disk s1 ?k = Some (Regular (content ?k s))" by (simp add: s1_def send_text_def net_send_def)
  obtain ok s2 where run: "write_chunks E ?k bs s1 = (ok, s2)" by fastforce
  with k1 all have "ok" and d: "disk s2 = (disk s1)(?k \<mapsto> Regular (content ?k s @ bs))"
    using write_chunks_all [OF all k1 run] by simp_all
  from write_chunks_silent [OF run] obtain es where es: "trace s2 = trace s1 @ es" "syscalls es"
    by (auto simp: silent_def)
  from write_chunks_tables [OF run] have s2: "s2 = s1\<lparr>trace := trace s1 @ es, disk := disk s2\<rparr>"
    by (simp add: same_tables_ss_def es)
  then have "s2 = s\<lparr>disk := appended E p bs s, trace := trace s1 @ es\<rparr>"
    unfolding d by (simp add: s1_def send_text_def net_send_def emit_def appended_def)
  moreover have "write_data E p c s = Inr (Some (p, bs), s2)"
    using got_length [OF got] dest grant \<open>ok\<close> run
    by (simp add: write_data_def write_open_def write_sync_def got_recv [OF got] sync_target_async [OF async]
        fopen_append_ok at s1_def)
  ultimately show ?thesis using es(2)
    by (intro exI [of _ es]) (simp add: s1_def)
qed

text \<open>The naming server takes the connection.\<close>

definition nm_reachable :: "host \<Rightarrow> ss \<Rightarrow> bool" where
  "nm_reachable E s \<longleftrightarrow> e_pton E (global_nm_ip s) \<and>
     (\<forall>tr. e_socket E tr \<and> e_connect E tr (global_nm_ip s) (htons (global_nm_port s)))"

lemma dial_reachable:
  "nm_reachable E s \<Longrightarrow> dial E (global_nm_ip s) (global_nm_port s) s =
     (Dialled (length (trace s)),
      emit (Connected (length (trace s)) (global_nm_ip s) (htons (global_nm_port s))) s)"
  by (simp add: nm_reachable_def dial_def)

definition nm_address :: "ss \<Rightarrow> address" where
  "nm_address s = (global_nm_ip s, htons (global_nm_port s))"

lemma notify_written_sends:
  assumes "nm_reachable E s"
  shows "wp (\<lambda>s'. same_ss s s' \<and> (\<forall>fd. replies (Conn fd) s' = replies (Conn fd) s) \<and>
      delivered s' = delivered s @
        [(Some (nm_address s), Text (snprintf BUFFER_SIZE (ip @ '' '' @ dec port @ '' '' @ p))),
         (Some (nm_address s), Text data)])
    (notify_written E (Some ip) port p data s)"
  using assms
  by (simp add: notify_written_def dial_reachable same_ss_def emit_def send_text_def net_send_def
      net_close_def replies_def delivered_def nm_address_def)

text \<open>
  C5: An asynchronous write to a file nobody reads appends exactly the received bytes to it and
  touches no other file; the client is answered once, the naming server is told the file and
  then the bytes, and both tables are as before.
\<close>

lemma write_file_async_wp:
  assumes fits: "path_fits p" and room: "length (files_being_accessed s) < MAX_PATHS"
    and free: "p \<notin> set (files_being_read s)" and async: "\<not> sublist '' --sync'' p"
    and got: "got E (Conn fd) bs s" and dest: "disk s (file_at E p s) \<noteq> Some Folder"
    and grant: "\<And>tr. h_open E tr (file_at E p s)" and all: "\<And>tr n. n \<le> h_fwrite E tr n"
    and nm: "nm_reachable E s"
  shows "wp (\<lambda>s'. disk s' = (disk s)(file_at E p s \<mapsto> Regular (content (file_at E p s) s @ bs)) \<and>
            mset (files_being_accessed s') = mset (files_being_accessed s) \<and>
            files_being_read s' = files_being_read s \<and>
            replies (Conn fd) s' = replies (Conn fd) s @ [Text ''Data received for asynchronous writing''] \<and>
            delivered s' = delivered s @
              [(Some (nm_address s), Text (snprintf BUFFER_SIZE (ip @ '' '' @ dec port @ '' '' @ p))),
               (Some (nm_address s), Text bs)])
     (write_file E p (Conn fd) (Some ip) port s)"
proof -
  let ?rows = "files_being_accessed s @ [p]"
  let ?s1 = "s\<lparr>files_being_accessed := ?rows\<rparr>"
  let ?d = "(disk s)(file_at E p s \<mapsto> Regular (content (file_at E p s) s @ bs))"
  have "\<exists>es. write_data E p (Conn fd) ?s1 = Inr (Some (p, bs), ?s1\<lparr>disk := appended E p bs ?s1,
      trace := trace ?s1 @ [Received (Conn fd) bs, Syscall ''fopen'' p,
        Sent (Conn fd) (Text ''Data received for asynchronous writing'')] @ es\<rparr>) \<and> syscalls es"
    by (rule write_data_async) (use got async dest grant all in \<open>simp_all add: got_def\<close>)
  then obtain es where es: "syscalls es" and w: "write_data E p (Conn fd) ?s1 = Inr (Some (p, bs), ?s1\<lparr>disk := ?d,
      trace := trace s @ [Received (Conn fd) bs, Syscall ''fopen'' p,
        Sent (Conn fd) (Text ''Data received for asynchronous writing'')] @ es\<rparr>)"
    by (auto simp: appended_def content_def)
  define s2 where "s2 = s\<lparr>disk := ?d,
      trace := trace s @ [Received (Conn fd) bs, Syscall ''fopen'' p,
        Sent (Conn fd) (Text ''Data received for asynchronous writing'')] @ es,
      files_being_accessed := remove1 p ?rows\<rparr>"
  have "write_file E p (Conn fd) (Some ip) port s = notify_written E (Some ip) port p bs s2"
    using w by (simp add: write_file_def write_check_eq free add_fits fits room
        delete_accessible_path_fits s2_def del: remove1_append)
  moreover have "nm_reachable E s2" using nm by (simp add: nm_reachable_def s2_def)
  moreover have "nm_address s2 = nm_address s" by (simp add: nm_address_def s2_def)
  moreover have "delivered s2 = delivered s" and "replies (Conn fd) s2 =
      replies (Conn fd) s @ [Text ''Data received for asynchronous writing'']"
    using es by (simp_all add: s2_def delivered_def replies_def syscalls_silent)
  ultimately show ?thesis
    using notify_written_sends [of E s2 ip port p bs]
    by (auto elim!: wp_mono simp: same_ssD same_ss_disk s2_def simp del: remove1_append)
qed

lemma sublist_flag: "CHR '' '' \<notin> set p \<Longrightarrow> \<not> sublist '' --sync'' p"
  by (auto dest: set_mono_sublist)

lemma sample_reachable [simp]: "nm_reachable sample_host s"
  by (simp add: nm_reachable_def)

lemma write_file_async_witness:
  "wp (\<lambda>s'. file_content sample_host ''d/f.c'' s' = Some ''hellodata'')
     (write_file sample_host ''d/f.c'' (Conn 5) (Some ''10.0.0.1'') 5001 sample_ss)"
proof -
  have "\<not> sublist '' --sync'' ''d/f.c''" by (rule sublist_flag) simp
  then show ?thesis
    using write_file_async_wp [of "''d/f.c''" sample_ss sample_host 5 "''data''" "''10.0.0.1''" 5001]
    by (auto simp: path_fits_def got_def file_content_def node_at_def content_def elim!: wp_mono)
qed

section \<open>Synchronous writes keep their row\<close>

lemma write_data_sync:
  assumes got: "got E c bs s" and u: "CHR '' '' \<notin> set u"
    and dest: "disk s (file_at E u s) \<noteq> Some Folder" and grant: "\<And>tr. h_open E tr (file_at E u s)"
    and all: "\<And>tr n. n \<le> h_fwrite E tr n"
  shows "\<exists>tr. write_data E (u @ '' --sync'') c s = Inr (Some (u, bs), s\<lparr>disk := appended E u bs s, trace := tr\<rparr>)"
proof -
  let ?k = "file_at E u s"
  define s1 where "s1 = emit (Syscall ''fopen'' u)
    (emit (Received c bs) s\<lparr>disk := (disk s)(?k \<mapsto> Regular (content ?k s))\<rparr>)"
  have at: "file_at E u (emit (Received c bs) s) = ?k" by (simp add: file_at_def)
  have "c_fwrite E ?k bs s1 = (length bs, emit (Syscall ''write'' ?k)
      (s1\<lparr>disk := (disk s1)(?k \<mapsto> Regular (content ?k s @ bs))\<rparr>))"
    using all by (subst c_fwrite_all) (simp_all add: s1_def)
  then have "write_data E (u @ '' --sync'') c s = Inr (Some (u, bs),
      send_text c ''synchronous writing done''
        (emit (Syscall ''write'' ?k) (s1\<lparr>disk := (disk s1)(?k \<mapsto> Regular (content ?k s @ bs))\<rparr>)))"
    using got_length [OF got] dest grant
    by (simp add: write_data_def write_open_def write_sync_def got_recv [OF got] sync_target_flag [OF u] fopen_append_ok at s1_def)
  then show ?thesis
    by (simp add: s1_def emit_def send_text_def net_send_def appended_def) blast
qed

lemma write_file_sync:
  assumes fits: "path_fits (u @ '' --sync'')"
    and room: "length (files_being_accessed s) < MAX_PATHS"
    and free: "u @ '' --sync'' \<notin> set (files_being_read s)" "u \<notin> set (files_being_accessed s)"
    and got: "got E c bs s" and u: "CHR '' '' \<notin> set u"
    and dest: "disk s (file_at E u s) \<noteq> Some Folder" and grant: "\<And>tr. h_open E tr (file_at E u s)"
    and all: "\<And>tr n. n \<le> h_fwrite E tr n" and nm: "nm_reachable E s"
  shows "wp (\<lambda>s'. disk s' = appended E u bs s \<and> files_being_read s' = files_being_read s \<and>
            files_being_accessed s' = files_being_accessed s @ [u @ '' --sync''])
     (write_file E (u @ '' --sync'') c (Some ip) port s)"
proof -
  let ?p = "u @ '' --sync''"
  let ?rows = "files_being_accessed s @ [?p]"
  let ?s1 = "s\<lparr>files_being_accessed := ?rows\<rparr>"
  have "\<exists>tr. write_data E ?p c ?s1 = Inr (Some (u, bs), ?s1\<lparr>disk := appended E u bs ?s1, trace := tr\<rparr>)"
    by (rule write_data_sync) (use got u dest grant all in \<open>simp_all add: got_def\<close>)
  then obtain tr where w: "write_data E ?p c ?s1 = Inr (Some (u, bs), ?s1\<lparr>disk := appended E u bs s, trace := tr\<rparr>)"
    by (auto simp: appended_def content_def)
  have kept: "remove1 u ?rows = ?rows" using free(2) by (simp add: remove1_idem)
  define s2 where "s2 = s\<lparr>disk := appended E u bs s, trace := tr, files_being_accessed := ?rows\<rparr>"
  have u_fits: "path_fits u" using fits by (simp add: path_fits_def)
  have "write_file E ?p c (Some ip) port s = notify_written E (Some ip) port u bs s2"
    using w by (simp add: write_file_def write_check_eq free add_fits fits room
        delete_accessible_path_fits [OF u_fits] kept s2_def del: remove1_append)
  moreover have "nm_reachable E s2" using nm by (simp add: nm_reachable_def s2_def)
  ultimately show ?thesis
    using notify_written_sends [of E s2 ip port u bs]
    by (auto elim!: wp_mono simp: same_ssD same_ss_disk s2_def)
qed

section \<open>Deletions\<close>

lemma delete_check_eq:
  "rows_ok (files_being_accessed s) \<Longrightarrow> delete_check p c s =
     Inr (if \<exists>r \<in> set (files_being_accessed s). prefix p r
          then (False, send_text c ''Cannot delete, a client is writing to a file in this directory'' s)
          else (True, s))"
  by (simp add: delete_check_def)

lemma delete_check2_eq:
  "rows_ok (files_being_read s) \<Longrightarrow> delete_check2 p c s =
     Inr (if \<exists>r \<in> set (files_being_read s). prefix p r
          then (False, send_text c ''Cannot delete, a client is reading a file in this directory'' s)
          else (True, s))"
  by (simp add: delete_check2_def)

lemma delete_busy:
  assumes "rows_ok (files_being_accessed s)" and "r \<in> set (files_being_accessed s)" and "prefix p r"
  shows "delete_file_or_directory E p c s =
    Inr (send_text c ''Cannot delete, a client is writing to a file in this directory'' s)"
  using assms by (auto simp: delete_file_or_directory_def delete_check_eq)

lemma mode_type:
  "S_ISDIR ((m AND 0x0FFF) OR S_IFDIR)" "\<not> S_ISDIR ((m AND 0x0FFF) OR S_IFREG)"
proof -
  have low: "(m AND 0x0FFF) AND 0xF000 = 0" by (simp add: and.assoc)
  then show "S_ISDIR ((m AND 0x0FFF) OR S_IFDIR)" "\<not> S_ISDIR ((m AND 0x0FFF) OR S_IFREG)"
    by (simp_all add: S_ISDIR_def S_IFDIR_def S_IFREG_def bit.conj_disj_distrib2)
qed

lemma c_stat_dir:
  "c_stat E p s = Some st \<Longrightarrow> S_ISDIR (st_mode st) \<longleftrightarrow> node_at E p s = Some Folder"
  by (auto simp: c_stat_def Let_def mode_type split: option.splits if_splits)

lemma c_stat_None: "c_stat E p s = None \<longleftrightarrow> node_at E p s = None"
  by (simp add: c_stat_def Let_def split: option.splits)

text \<open>
  The deletion of a regular file no client uses answers that the file was deleted, whether or
  not the system removed it; only a removed file leaves the disk.
\<close>

lemma delete_file_wp:
  assumes ok: "access_ok s" and t: "file_content E p s = Some t"
    and free: "\<forall>r \<in> set (files_being_accessed s @ files_being_read s). \<not> prefix p r"
  shows "wp (\<lambda>s'. replies c s' = replies c s @ [Text ''File deleted successfully''] \<and>
            disk s' = (if h_remove E (trace s) (file_at E p s) then (disk s)(file_at E p s := None) else disk s))
     (delete_file_or_directory E p c s)"
proof -
  from t have node: "node_at E p s = Some (Regular t)"
    by (simp add: file_content_def split: option.splits node.splits)
  then obtain st where "c_stat E p s = Some st" using c_stat_None [of E p s] by (cases "c_stat E p s") auto
  with node c_stat_dir [OF this] have "delete_node E p c s =
      send_text c ''File deleted successfully'' (snd (c_remove E ''remove'' p s))"
    by (simp add: delete_node_def)
  with ok free node show ?thesis
    by (auto simp: delete_file_or_directory_def delete_check_eq delete_check2_eq access_ok_def c_remove_def
        Let_def node_at_def replies_def send_text_def net_send_def)
qed

lemma delete_file_witness:
  "wp (\<lambda>s'. disk s' ''d/f.c'' = None) (delete_file_or_directory sample_host ''d/f.c'' (Conn 5) sample_ss)"
  using delete_file_wp [of sample_ss sample_host "''d/f.c''" "''hello''" "Conn 5"]
  by (auto elim!: wp_mono)

section \<open>Creations\<close>

text \<open>
  C28: A file is created in an existing folder exactly when the name is free and the system grants
  it: then it is empty and the answer says success; otherwise the disk is as before and the answer
  does not contain the word the naming server looks for.
\<close>

lemma create_file_wp:
  assumes name: "strrchr (CHR ''.'') f = Some n" "n \<noteq> 0" and slash: "CHR ''/'' \<notin> set f"
    and fits: "path_fits (d @ ''/'' @ f)" and dir: "node_at E d s \<noteq> None"
  shows "wp (\<lambda>s'. let p = d @ ''/'' @ f in
       if node_at E p s = None \<and> h_open E (trace s) (file_at E p s)
       then disk s' = (disk s)(file_at E p s \<mapsto> Regular '''') \<and>
            replies c s' = replies c s @ [Text ''File created successfully'']
       else disk s' = disk s \<and> replies c s' = replies c s @ [Text ''File created failyfully'']) 
     (create_file E d f c s)"
proof -
  let ?p = "d @ ''/'' @ f"
  have p: "snprintf BUFFER_SIZE ?p = ?p" using fits by (simp add: path_fits_def)
  have cut: "strrchr (CHR ''/'') ?p = Some (length d)" using strrchr_append [OF slash, of d] by simp
  obtain st where "c_stat E d s = Some st" using dir c_stat_None [of E d s] by (cases "c_stat E d s") auto
  then have "create_file E d f c s =
      (case open_excl E ?p s of (fd, s) \<Rightarrow>
         Inr (send_text c (if fd \<noteq> None then ''File created successfully''
                           else ''File created failyfully'') s))"
    unfolding create_file_def p Let_def cut using name by simp
  then show ?thesis
    by (auto simp: open_excl_def open_write_def Let_def node_at_def file_at_def content_def replies_def
        send_text_def net_send_def emit_def)
qed

lemma create_file_witness:
  "wp (\<lambda>s'. file_content sample_host ''d/new.c'' s' = Some '''') (create_file sample_host ''d'' ''new.c'' (Conn 5) sample_ss)"
  using create_file_wp [of "''new.c''" 3 "''d''" sample_host sample_ss "Conn 5"]
  by (auto simp: strrchr_def path_fits_def node_at_def file_content_def Let_def elim!: wp_mono)

lemma created_reply: "strstr ''success'' ''File created successfully'' \<noteq> None"
  "strstr ''success'' ''File created failyfully'' = None"
  by (simp_all add: strstr.simps)

section \<open>Copies\<close>

lemma copy_blocks_all:
  assumes all: "\<And>tr n. n \<le> h_fwrite E tr n" and noerr: "\<And>tr. \<not> h_ioerr E tr"
    and k: "disk s k = Some (Regular old)"
  shows "disk (copy_blocks E k rest s) = (disk s)(k \<mapsto> Regular (old @ rest))"
  using k
proof (induction "length rest" arbitrary: rest s old rule: less_induct)
  case less
  show ?case
  proof (cases "rest = []")
    case True
    with less(2) show ?thesis by (auto simp: copy_blocks.simps)
  next
    case False
    let ?c = "take BUFFER_SIZE rest"
    define t where "t = emit (Syscall ''write'' k) (s\<lparr>disk := (disk s)(k \<mapsto> Regular (old @ ?c))\<rparr>)"
    have "snd (c_fwrite E k ?c s) = t"
      using c_fwrite_all [where data = ?c and k = k and s = s, OF all] less(2)
      by (simp add: t_def content_def del: length_take)
    moreover have "disk (copy_blocks E k (drop BUFFER_SIZE rest) t) =
        (disk t)(k \<mapsto> Regular ((old @ ?c) @ drop BUFFER_SIZE rest))"
      by (rule less(1)) (use False in \<open>simp_all add: t_def\<close>)
    ultimately show ?thesis using False noerr
      by (subst copy_blocks.simps) (simp add: t_def)
  qed
qed

lemma copy_blocks_frame: "silent s (copy_blocks E k rest s)"
proof (induction E k rest s rule: copy_blocks.induct)
  case (1 E k rest s)
  let ?t = "snd (c_fwrite E k (take BUFFER_SIZE rest) s)"
  have "silent s ?t" by (rule c_fwrite_silent) (rule prod.collapse [symmetric])
  moreover have "silent ?t (copy_blocks E k (drop BUFFER_SIZE rest) ?t)" if "rest \<noteq> []" "\<not> h_ioerr E (trace s)"
    using 1 that by simp
  ultimately show ?case
    by (subst copy_blocks.simps) (auto intro: silent_trans simp: silent_def [of s s])
qed

text \<open>
  C27: A copy between two different files of one server makes the destination equal to the source,
  whatever it held before, and changes no other file.
\<close>

lemma handle_copy_copies:
  assumes t: "file_content E p s = Some t" and q: "disk s (file_at E q s) \<noteq> Some Folder"
    and diff: "file_at E p s \<noteq> file_at E q s" and grant: "\<And>tr k. h_open E tr k"
    and all: "\<And>tr n. n \<le> h_fwrite E tr n" and noerr: "\<And>tr. \<not> h_ioerr E tr"
  shows "disk (handle_copy E c p q s) = (disk s)(file_at E q s \<mapsto> Regular t) \<and>
    replies c (handle_copy E c p q s) = replies c s @ [Text (''COPY: Success'' @ nl)]"
proof -
  let ?k = "file_at E q s"
  define s1 where "s1 = emit (Syscall ''fopen'' q)
    ((emit (Syscall ''open'' p) s)\<lparr>disk := (disk s)(?k \<mapsto> Regular '''')\<rparr>)"
  have at: "file_at E q (emit ev s) = ?k" for ev by (simp add: file_at_def)
  have src: "disk s (file_at E p s) = Some (Regular t)" using t by (simp add: file_content_Some)
  have "handle_copy E c p q s = send_text c (''COPY: Success'' @ nl) (copy_blocks E ?k t s1)"
    using src q diff
    by (simp add: handle_copy_def open_read_def fopen_trunc_def open_write_def Let_def grant at s1_def
        content_def)
  moreover have "disk (copy_blocks E ?k t s1) = (disk s1)(?k \<mapsto> Regular ('''' @ t))"
    by (rule copy_blocks_all) (simp_all add: all noerr s1_def)
  moreover have "replies c (copy_blocks E ?k t s1) = replies c s"
    using silent_replies [OF copy_blocks_frame [of s1 E ?k t], of c] by (simp add: s1_def replies_def)
  ultimately show ?thesis by (simp add: s1_def send_text_def net_send_def)
qed

lemma handle_copy_witness:
  "disk (handle_copy sample_host (Conn 5) ''d/f.c'' ''d/g.c'' sample_ss) ''d/g.c'' = Some (Regular ''hello'')"
  using handle_copy_copies [of sample_host "''d/f.c''" sample_ss "''hello''" "''d/g.c''" "Conn 5"] by simp

end
