(* ===== verification/SS_Folders.thy ===== *)
theory SS_Folders
  imports SS_Files
begin

text \<open>
  Copies of whole folders between storage servers: \<open>copy_from_folder\<close> of
  \<open>storage_server.c\<close> packs a folder with \<open>zip\<close> and sends the archive, with its size in front,
  to \<open>paste_to_folder\<close> of \<open>file_manager.c\<close> on the other server, which unpacks it. The
  commands run by \<open>system\<close> are the host's.
\<close>

section \<open>Path names\<close>

definition extract_path :: "string \<Rightarrow> ss \<Rightarrow> (string \<times> ss) result" where
  "extract_path path s =
     andthen
       (case strrchr (CHR ''/'') path of
          None \<Rightarrow> Inr (extract_result s)
        | Some last_slash \<Rightarrow>
            (case strrchr (CHR ''.'') path of
               None \<Rightarrow> strcpy 1024 path
             | Some dot \<Rightarrow>
                 if last_slash < dot then strcpy 1024 (take last_slash path) else strcpy 1024 path))
       (\<lambda>result. Inr (result, s\<lparr>extract_result := result\<rparr>))"

definition split_path :: "string \<Rightarrow> string \<times> string" where
  "split_path path =
     (case strrchr (CHR ''/'') path of
        None \<Rightarrow> ('''', path)
      | Some n \<Rightarrow> if n = 0 then ('''', drop 1 path) else (take n path, drop (Suc n) path))"

definition getFileName :: "string \<Rightarrow> string" where
  "getFileName path =
     (case strrchr (CHR ''/'') path of None \<Rightarrow> path | Some n \<Rightarrow> drop (n + 1) path)"

section \<open>\<open>sscanf\<close> with \<open>%s\<close> and \<open>%d\<close>\<close>

text \<open>
  One conversion: what was read and the rest of the input. A word that does not fit its array is
  written past it.
\<close>

definition scanf_s :: "nat \<Rightarrow> string \<Rightarrow> (string \<times> string) option result" where
  "scanf_s n text =
     (let t = dropWhile isspace text; w = takeWhile (\<lambda>c. \<not> isspace c) t in
      if w = [] then Inr None
      else andthen (strcpy n w) (\<lambda>w. Inr (Some (w, dropWhile (\<lambda>c. \<not> isspace c) t))))"

definition scanf_d :: "string \<Rightarrow> (int \<times> string) option" where
  "scanf_d text =
     (let t = dropWhile isspace text;
          factor = (if t \<noteq> [] \<and> hd t = CHR ''-'' then -1 else 1);
          u = (if t \<noteq> [] \<and> (hd t = CHR ''-'' \<or> hd t = CHR ''+'') then tl t else t);
          ds = takeWhile isdigit u
      in if ds = [] then None else Some (factor * int (atoi_digits 0 ds), dropWhile isdigit u))"

text \<open>
  \<open>sscanf(text, "%s %s %d %s %d ", path, ip, &port, dest_path, &flag)\<close> into arrays of 100 bytes:
  behind the first conversion that fails the variables keep what the stack held.
\<close>

definition scan_copy :: "host \<Rightarrow> string \<Rightarrow> (string \<times> string \<times> int \<times> string \<times> int) result" where
  "scan_copy E text =
     (let j_path = e_junk E ''path''; j_ip = e_junk E ''ip''; j_port = h_int E ''port'';
          j_dest = e_junk E ''dest_path''; j_flag = h_int E ''flag'' in
      andthen (scanf_s 100 text) (\<lambda>r. case r of
        None \<Rightarrow> Inr (j_path, j_ip, j_port, j_dest, j_flag)
      | Some (path, text) \<Rightarrow> andthen (scanf_s 100 text) (\<lambda>r. case r of
        None \<Rightarrow> Inr (path, j_ip, j_port, j_dest, j_flag)
      | Some (ip, text) \<Rightarrow> (case scanf_d text of
        None \<Rightarrow> Inr (path, ip, j_port, j_dest, j_flag)
      | Some (port, text) \<Rightarrow> andthen (scanf_s 100 text) (\<lambda>r. case r of
        None \<Rightarrow> Inr (path, ip, port, j_dest, j_flag)
      | Some (dest_path, text) \<Rightarrow> (case scanf_d text of
        None \<Rightarrow> Inr (path, ip, port, dest_path, j_flag)
      | Some (flag, _) \<Rightarrow> Inr (path, ip, port, dest_path, flag)))))))"

section \<open>The size in front of an archive\<close>

text \<open>The bytes of a \<open>size_t\<close> in memory, lowest first.\<close>

fun le_bytes :: "nat \<Rightarrow> nat \<Rightarrow> string" where
  "le_bytes 0 n = []"
| "le_bytes (Suc k) n = char_of (n mod 256) # le_bytes k (n div 256)"

fun le_value :: "string \<Rightarrow> nat" where
  "le_value [] = 0"
| "le_value (c # cs) = of_char c + 256 * le_value cs"

definition size_bytes :: "64 word \<Rightarrow> string" where
  "size_bytes w = le_bytes 8 (unat w)"

definition size_value :: "string \<Rightarrow> 64 word" where
  "size_value bs = of_nat (le_value bs)"

section \<open>Sending a folder\<close>

abbreviation FAIL :: int where "FAIL \<equiv> 1"
abbreviation SUCCESS :: int where "SUCCESS \<equiv> 0"

text \<open>Pack the folder, in its parent directory when it has one: false when the copy gives up.\<close>

definition zip_folder :: "host \<Rightarrow> string \<Rightarrow> ss \<Rightarrow> bool \<times> ss" where
  "zip_folder E path s =
     (case split_path path of (parent, last_part) \<Rightarrow>
      if e_getcwd E (trace s) = None then (False, s)
      else
        let original_dir = cwd s;
            (there, s) = (if parent = '''' then (True, s) else c_chdir E parent s)
        in if \<not> there then (False, s)
           else
             (case c_system E (snprintf BUFFER_SIZE
                     (if parent = '''' then ''zip -r '' @ path @ ''.zip '' @ path
                      else ''zip -r '' @ last_part @ ''.zip '' @ last_part)) s of
                (result, s) \<Rightarrow>
                  if result \<noteq> 0 then (False, s) else (True, snd (c_chdir E original_dir s))))"

definition send_archive :: "host \<Rightarrow> nat \<Rightarrow> string \<Rightarrow> string \<Rightarrow> string \<Rightarrow> ss \<Rightarrow> bool \<times> ss" where
  "send_archive E k request archive file_to_send s =
     (let s = send_text (Peer k) request s in
      if \<not> h_send E (trace s) then (False, net_close (Peer k) s)
      else
        let s = send_text (Peer k) (size_bytes (of_nat (length archive))) s in
        if \<not> h_send E (trace s) then (False, net_close (Peer k) s)
        else
          let s = send_text (Peer k) archive s;
              s = snd (c_system E (snprintf 5000 (''rm -rf '' @ file_to_send)) s)
          in (True, net_close (Peer k) s))"

text \<open>
  \<open>copy_from_folder\<close>: its result. Behind the answer it runs off its end, so the result is
  whatever the register held.
\<close>

definition copy_from_folder :: "host \<Rightarrow> string \<Rightarrow> chan \<Rightarrow> ss \<Rightarrow> (int \<times> ss) result" where
  "copy_from_folder E file_path c s =
     andthen (scan_copy E file_path) (\<lambda>(path, ip, port, dest_path, flag).
       if flag \<noteq> 0 then
         (case c_system E (snprintf BUFFER_SIZE (''cp -r '' @ path @ ''/* '' @ dest_path)) s of
            (result, s) \<Rightarrow> Inr (if result \<noteq> 0 then FAIL else SUCCESS, s))
       else
         (case zip_folder E path s of
            (False, s) \<Rightarrow> Inr (FAIL, s)
          | (True, s) \<Rightarrow>
              let file_to_send = snprintf BUFFER_SIZE (path @ ''.zip'') in
              (case open_read E file_to_send s of
                 (None, s) \<Rightarrow> Inr (FAIL, s)
               | (Some k, s) \<Rightarrow>
                   if h_ioerr E (trace s) then Inr (FAIL, s)
                   else
                     let archive = content k s in
                     (case dial_unchecked E ip port s of
                        (None, s) \<Rightarrow> Inr (FAIL, s)
                      | (Some d, s) \<Rightarrow>
                          let request = snprintf 5000 (''PASTE_FOLDER '' @ snprintf BUFFER_SIZE
                                (dest_path @ ''/'' @ getFileName path @ ''.zip''))
                          in (case send_archive E d request archive file_to_send s of
                                (False, s) \<Rightarrow> Inr (FAIL, s)
                              | (True, s) \<Rightarrow>
                                  let s = send_text c (''completed copying'' @ [CHR 0x00]) s in
                                  andthen (arr_get 100 (strncpy 100 file_path)) (\<lambda>_.
                                  Inr (h_int E ''ecode'', s)))))))"

section \<open>Receiving a folder\<close>

text \<open>
  \<open>paste_to_folder\<close>: the archive is read into a heap block of exactly its size and terminated
  with a NUL byte.
\<close>

definition paste_to_folder :: "host \<Rightarrow> string \<Rightarrow> chan \<Rightarrow> ss \<Rightarrow> ss result" where
  "paste_to_folder E file_path c s =
     (case c_system E (snprintf MAX_WRITE_SIZE (''touch '' @ [CHR 0x22] @ file_path @ [CHR 0x22])) s of
        (ret, s) \<Rightarrow>
        if ret = -1 then Inr s
        else
          (case net_recv E c 8 s of
             (None, s) \<Rightarrow> Inr s
           | (Some header, s) \<Rightarrow>
               let q = unat (size_value (header @ drop (length header) (take 8 (e_junk E ''buffer0'')))) in
               (case net_recv E c q s of
                  (None, s) \<Rightarrow> Inr s
                | (Some bs, s) \<Rightarrow> andthen (terminate q bs) (\<lambda>_.
                    (case fopen_trunc E file_path s of
                       (None, s) \<Rightarrow> Inr s
                     | (Some k, s) \<Rightarrow>
                         (case c_fwrite E k bs s of
                            (n, s) \<Rightarrow>
                              if n < length bs then Inr s
                              else
                                andthen (strcpy 1024 file_path) (\<lambda>original_path.
                                andthen (extract_path file_path s) (\<lambda>(updated_path, s).
                                let s = snd (c_system E (snprintf MAX_WRITE_SIZE
                                      (''unzip '' @ original_path @ '' -d '' @ updated_path)) s)
                                in Inr (snd (c_system E (snprintf BUFFER_SIZE (''rm -rf '' @ original_path)) s))))))))))"

section \<open>Path names are taken apart and put together\<close>

lemma split_path_join: "split_path p = (parent, l) \<Longrightarrow> parent \<noteq> '''' \<Longrightarrow> parent @ ''/'' @ l = p"
  by (auto simp: split_path_def strrchr_Some split: option.splits if_splits)
    (metis id_take_nth_drop)

lemma getFileName_split: "getFileName p = snd (split_path p)"
  by (auto simp: getFileName_def split_path_def split: option.splits)

lemma split_path_parts: "CHR ''/'' \<notin> set l \<Longrightarrow> u \<noteq> '''' \<Longrightarrow> split_path (u @ ''/'' @ l) = (u, l)"
  using strrchr_append [of "CHR ''/''" l u] by (simp add: split_path_def)

section \<open>The size survives the wire\<close>

lemma length_le_bytes [simp]: "length (le_bytes k n) = k"
  by (induction k arbitrary: n) auto

lemma le_value_bytes: "le_value (le_bytes k n) = n mod 256 ^ k"
proof (induction k arbitrary: n)
  case (Suc k)
  have "n mod 256 ^ Suc k = n mod 256 + 256 * (n div 256 mod 256 ^ k)"
    by (simp add: mod_mult2_eq)
  with Suc show ?case by simp
qed simp

lemma size_roundtrip: "size_value (size_bytes w) = w"
proof -
  have "unat w < 2 ^ LENGTH(64)" by (rule unsigned_less)
  then have "unat w < 256 ^ 8" by simp
  then show ?thesis by (simp add: size_value_def size_bytes_def le_value_bytes del: le_bytes.simps)
qed

lemma length_size_bytes [simp]: "length (size_bytes w) = 8"
  by (simp add: size_bytes_def del: le_bytes.simps)

section \<open>The receiver overflows its block\<close>

text \<open>
  A folder that arrives completely, its size in front, makes the receiving server write the
  terminator one byte behind the heap block: the block is as large as the archive.
\<close>

lemma paste_overflow:
  assumes peer: "script E c (req # size_bytes (of_nat (length z)) # z # rest)" and took: "received c (trace s) = 1"
    and z: "length z < 2 ^ 64" and sh: "\<And>tr d cmd k. fst (h_system E tr d cmd k) \<noteq> -1"
  shows "paste_to_folder E p c s = Inl Overflow"
proof -
  let ?cmd = "snprintf MAX_WRITE_SIZE (''touch '' @ [CHR 0x22] @ p @ [CHR 0x22])"
  let ?h = "size_bytes (of_nat (length z))"
  obtain ret d where sys: "h_system E (trace s) (cwd s) ?cmd (disk s) = (ret, d)" by fastforce
  with sh have "ret \<noteq> -1" by (metis fst_conv)
  define s1 where "s1 = emit (Syscall ''system'' ?cmd) (s\<lparr>disk := d\<rparr>)"
  have s1: "c_system E ?cmd s = (ret, s1)" using sys by (simp add: c_system_def s1_def)
  have hdr: "net_recv E c 8 s1 = (Some ?h, emit (Received c ?h) s1)"
    using peer took by (simp add: script_recv Let_def s1_def)
  have q: "unat (size_value (?h @ drop (length ?h) junk)) = length z" if "length junk \<le> 8" for junk
    using that z by (simp add: size_roundtrip unat_of_nat)
  have "net_recv E c (length z) (emit (Received c ?h) s1) = (Some z, emit (Received c z) (emit (Received c ?h) s1))"
    using peer took by (simp add: script_recv Let_def s1_def)
  with s1 hdr q [of "take 8 (e_junk E ''buffer0'')"] \<open>ret \<noteq> -1\<close> show ?thesis
    unfolding paste_to_folder_def s1 by (simp add: terminate_def del: append_Cons)
qed

lemma paste_overflow_witness:
  "paste_to_folder (scripted [''PASTE_FOLDER d/e.zip'', size_bytes 3, ''PK.'']) ''d/e.zip'' (Conn 5)
     (emit (Received (Conn 5) ''PASTE_FOLDER d/e.zip'') sample_ss) = Inl Overflow"
  by (rule paste_overflow [where req = "''PASTE_FOLDER d/e.zip''" and z = "''PK.''" and rest = "[]"]) simp_all

section \<open>The sender\<close>

text \<open>A copy inside one server runs a command and answers nobody.\<close>

lemma copy_from_folder_local:
  assumes "scan_copy E text = Inr (path, ip, port, dest, flag)" and "flag \<noteq> 0"
  shows "wp (\<lambda>(r, s'). replies c s' = replies c s \<and> delivered s' = delivered s) (copy_from_folder E text c s)"
  using assms
  by (auto simp: copy_from_folder_def c_system_def replies_def delivered_def emit_def split: prod.splits)

text \<open>
  C37: When \<open>zip\<close> fails, a folder copy gives up in the parent of the folder: the working directory
  of the whole process has changed, the naming server gets no answer, and relative path names mean
  other files from then on.
\<close>

lemma copy_from_folder_lost_cwd:
  assumes scan: "scan_copy E text = Inr (u @ ''/'' @ l, ip, port, dest, 0)" and u: "u \<noteq> ''''"
    and l: "CHR ''/'' \<notin> set l" and cd: "\<And>tr. h_chdir E tr (file_at E u s)"
    and here: "e_getcwd E (trace s) \<noteq> None" and zip: "\<And>tr d cmd k. fst (h_system E tr d cmd k) \<noteq> 0"
  shows "wp (\<lambda>(r, s'). r = FAIL \<and> cwd s' = file_at E u s \<and> replies c s' = replies c s)
     (copy_from_folder E text c s)"
proof -
  let ?s1 = "emit (Syscall ''chdir'' u) (s\<lparr>cwd := file_at E u s\<rparr>)"
  let ?cmd = "snprintf BUFFER_SIZE (''zip -r '' @ l @ ''.zip '' @ l)"
  obtain ret d where sys: "h_system E (trace ?s1) (cwd ?s1) ?cmd (disk ?s1) = (ret, d)" by fastforce
  with zip have "ret \<noteq> 0" by (metis fst_conv)
  obtain w where "e_getcwd E (trace s) = Some w" using here by blast
  then have "zip_folder E (u @ ''/'' @ l) s = (False, emit (Syscall ''system'' ?cmd) (?s1\<lparr>disk := d\<rparr>))"
    using sys \<open>ret \<noteq> 0\<close> cd u
    by (simp add: zip_folder_def split_path_parts [OF l u] c_chdir_def c_system_def Let_def
        del: append_Cons append_assoc)
  with scan show ?thesis by (simp add: copy_from_folder_def replies_def)
qed

lemma copy_from_folder_lost_cwd_witness:
  "wp (\<lambda>(r, s'). r = FAIL \<and> cwd s' = ''d'') (copy_from_folder failing_shell ''d/e 10.0.0.2 6002 g 0'' (Conn 5) sample_ss)"
proof -
  have "scan_copy failing_shell ''d/e 10.0.0.2 6002 g 0'' = Inr (''d'' @ ''/'' @ ''e'', ''10.0.0.2'', 6002, ''g'', 0)"
    by (simp add: scan_copy_def scanf_s_def scanf_d_def Let_def isspace_def isdigit_def)
  from copy_from_folder_lost_cwd [OF this, of sample_ss "Conn 5"] show ?thesis
    by (auto simp: failing_shell_def file_at_def sample_host_def elim!: wp_mono)
qed

text \<open>A copy to another server sends the request, the size and the archive.\<close>

lemma copy_from_folder_sends:
  assumes scan: "scan_copy E text = Inr (path, ip, port, dest, 0)" and short: "length text < 100"
    and zip: "zip_folder E path s = (True, s1)"
    and z: "file_content E (snprintf BUFFER_SIZE (path @ ''.zip'')) s1 = Some z"
    and grant: "\<And>tr k. h_open E tr k" and noerr: "\<And>tr. \<not> h_ioerr E tr" and sent: "\<And>tr. h_send E tr"
    and dest: "e_pton E ip" "\<And>tr. e_socket E tr \<and> e_connect E tr ip (htons port)"
  shows "wp (\<lambda>(r, s'). delivered s' = delivered s1 @
            map (\<lambda>m. (Some (ip, htons port), Text m))
              [snprintf 5000 (''PASTE_FOLDER '' @ snprintf BUFFER_SIZE (dest @ ''/'' @ getFileName path @ ''.zip'')),
               size_bytes (of_nat (length z)), z] \<and>
            replies (Conn fd) s' = replies (Conn fd) s1 @ [Text (''completed copying'' @ [CHR 0x00])])
     (copy_from_folder E text (Conn fd) s)"
proof -
  let ?p = "snprintf BUFFER_SIZE (path @ ''.zip'')"
  have k: "disk s1 (file_at E ?p s1) = Some (Regular z)" using z by (simp add: file_content_Some)
  show ?thesis
    using short k grant noerr sent dest
    by (simp add: copy_from_folder_def scan zip open_read_def Let_def content_def dial_unchecked_def
        send_archive_def c_system_def delivered_def replies_def send_text_def net_send_def net_close_def
        emit_def split: prod.splits del: append_Cons append_assoc)
qed

end
