(* ===== verification/SS_Server.thy ===== *)
theory SS_Server
  imports SS_Folders
begin

text \<open>
  \<open>storage_server.c\<close>: the scan of the home directory and the registration, and the three
  dispatchers, for messages of the naming server, of clients, and of other storage servers.
\<close>

section \<open>Start\<close>

definition get_local_ip_address :: "host \<Rightarrow> ss \<Rightarrow> string option \<times> ss" where
  "get_local_ip_address E s =
     (if \<not> e_socket E (trace s) then (None, emit (SysFail ''socket'') s)
      else if \<not> e_connect E (trace s) ''8.8.8.8'' 80 then (None, emit (SysFail ''connect'') s)
      else
        (case h_local_ip E (trace s) of
           None \<Rightarrow> (None, emit (SysFail ''getsockname'') s)
         | Some ip \<Rightarrow> (Some ip, emit (Syscall ''getsockname'' ip) s)))"

definition add_path :: "string \<Rightarrow> ss \<Rightarrow> ss result" where
  "add_path path s =
     (if length (accessible_paths s) < MAX_PATHS
      then Inr (s\<lparr>accessible_paths := accessible_paths s @ [strncpy BUFFER_SIZE path]\<rparr>)
      else Inl Overflow)"

text \<open>
  The loop over the entries of a directory; \<open>recur\<close> is the recursive call. A \<open>stat\<close> that fails
  ends the function, a full table ends the loop; only regular files are entered with a check of the
  table.
\<close>

fun scan_entries ::
  "(string \<Rightarrow> ss \<Rightarrow> ss result option) \<Rightarrow> host \<Rightarrow> string \<Rightarrow> string list \<Rightarrow> ss \<Rightarrow> ss result option" where
  "scan_entries recur E homedir [] s = Some (Inr s)"
| "scan_entries recur E homedir (name # names) s =
     (if name = ''.'' \<or> name = ''..'' then scan_entries recur E homedir names s
      else
        let full_path = snprintf BUFFER_SIZE (homedir @ ''/'' @ name) in
        (case c_stat E full_path s of
           None \<Rightarrow> Some (Inr (emit (SysFail ''stat'') s))
         | Some st \<Rightarrow>
             if S_ISDIR (st_mode st) then
               (case add_path full_path s of
                  Inl e \<Rightarrow> Some (Inl e)
                | Inr s \<Rightarrow>
                    (case recur full_path s of
                       None \<Rightarrow> None
                     | Some (Inl e) \<Rightarrow> Some (Inl e)
                     | Some (Inr s) \<Rightarrow> scan_entries recur E homedir names s))
             else if S_ISREG (st_mode st) then
               if length (accessible_paths s) < MAX_PATHS then
                 (case add_path full_path s of
                    Inl e \<Rightarrow> Some (Inl e)
                  | Inr s \<Rightarrow> scan_entries recur E homedir names s)
               else Some (Inr s)
             else scan_entries recur E homedir names s))"

text \<open>The fuel bounds the depth of the directories; without fuel the result is \<^term>\<open>None\<close>.\<close>

fun scan_directory :: "nat \<Rightarrow> host \<Rightarrow> string \<Rightarrow> ss \<Rightarrow> ss result option" where
  "scan_directory 0 E homedir s = None"
| "scan_directory (Suc n) E homedir s =
     (case add_path homedir s of
        Inl e \<Rightarrow> Some (Inl e)
      | Inr s \<Rightarrow>
          (case h_readdir E (trace s) (file_at E homedir s) of
             None \<Rightarrow> Some (Inr (emit (SysFail ''opendir'') s))
           | Some names \<Rightarrow> scan_entries (scan_directory n E) E homedir names s))"

record ServerParams =
  sp_nm_ip :: string
  sp_nm_port :: int
  sp_client_port :: int
  sp_nm_port_to_recieve :: int
  sp_ip :: "string option"
  sp_homedir :: string
  sp_ss_port :: int

text \<open>The comma-separated list of the paths, put together by \<open>strcat\<close> in one buffer.\<close>

fun join_paths :: "string list \<Rightarrow> string" where
  "join_paths [] = ''''"
| "join_paths [p] = p"
| "join_paths (p # ps) = p @ '','' @ join_paths ps"

definition registration :: "ServerParams \<Rightarrow> string \<Rightarrow> string \<Rightarrow> StorageServerInfo" where
  "registration sp ip paths_list =
     \<lparr>ss_ip = strncpy INET_ADDRSTRLEN ip, ss_port_nm = sp_nm_port_to_recieve sp,
      ss_port_client = sp_client_port sp, ss_accessible_paths = strncpy BUFFER_SIZE paths_list,
      ss_ss_port = sp_ss_port sp, ss_is_active = 0, ss_backup_ip1 = '''', ss_backup_port1 = 0,
      ss_backup_ip2 = '''', ss_backup_port2 = 0, ss_commands = []\<rparr>"

text \<open>
  \<open>start_storage_server\<close> up to its endless loop: the connection to the naming server, when it
  came to that, on which the loop goes on.
\<close>

definition start_storage_server :: "nat \<Rightarrow> host \<Rightarrow> ServerParams \<Rightarrow> ss \<Rightarrow> (nat option \<times> ss) result option" where
  "start_storage_server fuel E sp s =
     (case sp_ip sp of
        None \<Rightarrow> Some (Inl NullDeref)
      | Some ip \<Rightarrow>
          (case scan_directory fuel E (sp_homedir sp) s of
             None \<Rightarrow> None
           | Some r \<Rightarrow> Some (andthen r (\<lambda>s.
               andthen (strcpy BUFFER_SIZE (join_paths (accessible_paths s))) (\<lambda>paths_list.
               case dial E (sp_nm_ip sp) (sp_nm_port sp) s of
                 (Dialled k, s) \<Rightarrow>
                   let s = send_text (Peer k) ''REGISTER'' s;
                       s = net_send (Peer k) (RegisterMsg (registration sp ip paths_list)) s
                   in (case net_recv E (Peer k) BUFFER_SIZE s of (_, s) \<Rightarrow> Inr (Some k, s))
               | (_, s) \<Rightarrow> Inr (None, s))))))"

definition send_heartbeat :: "nat \<Rightarrow> ss \<Rightarrow> ss" where
  "send_heartbeat k s = send_text (Peer k) ''HEARTBEAT'' s"

text \<open>\<open>main\<close>: the usage check and the globals.\<close>

definition configure :: "host \<Rightarrow> string list \<Rightarrow> ss \<Rightarrow> (ServerParams option \<times> ss) result" where
  "configure E argv s =
     (if length argv < 7 then Inr (None, s)
      else
        let s = s\<lparr>global_nm_ip := strncpy INET_ADDRSTRLEN (argv ! 1), global_nm_port := atoi (argv ! 2)\<rparr> in
        (case get_local_ip_address E s of
           (ip, s) \<Rightarrow>
             andthen (strcpy BUFFER_SIZE (argv ! 6)) (\<lambda>dir.
             Inr (Some \<lparr>sp_nm_ip = argv ! 1, sp_nm_port = atoi (argv ! 2), sp_client_port = atoi (argv ! 3),
                        sp_nm_port_to_recieve = atoi (argv ! 4), sp_ip = ip, sp_homedir = argv ! 6,
                        sp_ss_port = atoi (argv ! 5)\<rparr>,
                  s\<lparr>ac := atoi (argv ! 4), global_dir_path := dir\<rparr>))))"

section \<open>Requests of the naming server\<close>

definition save_backup :: "host \<Rightarrow> chan \<Rightarrow> string \<Rightarrow> ss \<Rightarrow> ss result" where
  "save_backup E c arg1 s =
     (case net_recv E c 4096 s of
        (None, s) \<Rightarrow> Inr s
      | (Some backup_data, s) \<Rightarrow>
          if backup_data = [] then Inr s
          else
            andthen (terminate 4096 backup_data) (\<lambda>_.
            let filepath = snprintf 5000 (global_dir_path s @ ''/'' @ arg1) in
            (case fopen_append E filepath s of
               (None, s) \<Rightarrow> Inr s
             | (Some k, s) \<Rightarrow> Inr (snd (c_fwrite E k backup_data s)))))"

definition handle_nm_request :: "host \<Rightarrow> nat \<Rightarrow> ss \<Rightarrow> ss result" where
  "handle_nm_request E new_socket s =
     (let c = Conn new_socket in
      case net_recv E c BUFFER_SIZE s of
        (None, s) \<Rightarrow> Inr (net_close c s)
      | (Some bs, s) \<Rightarrow>
          if bs = [] then Inr (net_close c s)
          else
            andthen (terminate BUFFER_SIZE bs) (\<lambda>buffer.
            case sscanf3 buffer (e_junk E ''command'', e_junk E ''arg1'', e_junk E ''arg2'') of
              (command, arg1, arg2) \<Rightarrow>
                andthen
                  (if command = ''CREATE'' then create_file E arg1 arg2 c s
                   else if command = ''DELETE'' then delete_file_or_directory E arg1 c s
                   else if command = ''COPY'' then Inr (handle_copy E c arg1 arg2 s)
                   else if strncmp_eq 6 command ''Backup'' then save_backup E c arg1 s
                   else Inr (send_text c (''ERROR: Invalid command from Naming Server'' @ nl) s))
                  (\<lambda>s. Inr (net_close c s))))"

section \<open>Requests of clients\<close>

text \<open>
  \<open>buffer + n\<close> as a string: behind the terminator of the message lies what the stack held.
\<close>

definition arg_at :: "host \<Rightarrow> nat \<Rightarrow> string \<Rightarrow> string" where
  "arg_at E n bs = (if n \<le> length bs then c_str (drop n bs) else e_junk E ''buffer'')"

definition tell_nm :: "host \<Rightarrow> string \<Rightarrow> ss \<Rightarrow> ss" where
  "tell_nm E message s =
     (case dial E (global_nm_ip s) (global_nm_port s) s of
        (Dialled k, s) \<Rightarrow> net_close (Peer k) (send_text (Peer k) message s)
      | (_, s) \<Rightarrow> s)"

definition client_write :: "host \<Rightarrow> chan \<Rightarrow> string \<Rightarrow> string \<Rightarrow> ss \<Rightarrow> ss result" where
  "client_write E c buffer arg s =
     (case get_local_ip_address E s of
        (ip, s) \<Rightarrow>
          andthen (write_file E arg c ip (ac s) s) (\<lambda>s.
            Inr (if strstr ''--sync'' buffer = None
                 then tell_nm E (snprintf BUFFER_SIZE (''write '' @ arg)) s else s)))"

definition client_create :: "host \<Rightarrow> chan \<Rightarrow> string \<Rightarrow> ss \<Rightarrow> ss result" where
  "client_create E c text s =
     andthen (scanf_s 1000 text) (\<lambda>r. case r of
       None \<Rightarrow> create_file E (e_junk E ''folder'') (e_junk E ''file'') c s
     | Some (folder, text) \<Rightarrow> andthen (scanf_s 1000 text) (\<lambda>r. case r of
         None \<Rightarrow> create_file E folder (e_junk E ''file'') c s
       | Some (fname, _) \<Rightarrow> create_file E folder fname c s))"

definition client_command :: "host \<Rightarrow> chan \<Rightarrow> string \<Rightarrow> ss \<Rightarrow> ss result" where
  "client_command E c bs s =
     (let buffer = c_str bs in
      if strncmp_eq 12 buffer ''PASTE_FOLDER'' then paste_to_folder E (arg_at E 13 bs) c s
      else if strncmp_eq 4 buffer ''READ'' then read_file E (arg_at E 5 bs) c s
      else if strncmp_eq 5 buffer ''WRITE'' then client_write E c buffer (arg_at E 6 bs) s
      else if strncmp_eq 4 buffer ''INFO'' then Inr (get_file_info E (arg_at E 5 bs) c s)
      else if strncmp_eq 6 buffer ''STREAM'' then stream_audio_file E (arg_at E 7 bs) c s
      else if strncmp_eq 6 buffer ''DELETE'' then delete_file_or_directory E (arg_at E 7 bs) c s
      else if strncmp_eq 6 buffer ''CREATE'' then client_create E c (arg_at E 7 bs) s
      else if strncmp_eq 9 buffer ''COPY_FILE'' then
        andthen (copy_to_file E (arg_at E 10 bs) c s) (\<lambda>s.
          Inr (if strstr ''--sync'' buffer = None
               then tell_nm E (snprintf BUFFER_SIZE (''write '' @ arg_at E 6 bs)) s else s))
      else if strncmp_eq 11 buffer ''COPY_FOLDER'' then
        andthen (copy_from_folder E (arg_at E 12 bs) c s) (\<lambda>(ecode, s).
          Inr (if ecode = 0 then tell_nm E ''COPY_COMPLETED'' s else s))
      else Inr (send_text c (''ERROR: Unknown command'' @ nl) s))"

definition handle_client_request :: "host \<Rightarrow> nat \<Rightarrow> ss \<Rightarrow> ss result" where
  "handle_client_request E client_socket s =
     (let c = Conn client_socket in
      case net_recv E c (BUFFER_SIZE - 1) s of
        (None, s) \<Rightarrow> Inr (net_close c s)
      | (Some bs, s) \<Rightarrow>
          if bs = [] then Inr (net_close c s)
          else andthen (client_command E c bs s) (\<lambda>s. Inr (net_close c s)))"

section \<open>Requests of other storage servers\<close>

definition handle_ss_request :: "host \<Rightarrow> nat \<Rightarrow> ss \<Rightarrow> ss result" where
  "handle_ss_request E new_socket s =
     (let c = Conn new_socket in
      case net_recv E c BUFFER_SIZE s of
        (None, s) \<Rightarrow> Inr (net_close c s)
      | (Some bs, s) \<Rightarrow>
          if bs = [] then Inr (net_close c s)
          else
            andthen (terminate BUFFER_SIZE bs) (\<lambda>buffer.
            case sscanf3 buffer (e_junk E ''command'', e_junk E ''arg1'', e_junk E ''arg2'') of
              (command, arg1, arg2) \<Rightarrow>
                Inr (net_close c
                  (if command = ''COPY'' then handle_copy E c arg1 arg2 s
                   else send_text c (''ERROR: Invalid command from other storage server'' @ nl) s))))"

section \<open>The scan lists the tree\<close>

text \<open>
  A directory tree as the host shows it below a path: the entries of a folder in the order of
  \<open>readdir\<close>, among them the two dots.
\<close>

datatype dtree = Leaf | Dir "(string \<times> dtree) list"

fun depth :: "dtree \<Rightarrow> nat" where
  "depth Leaf = 0"
| "depth (Dir es) = Suc (foldr (\<lambda>(_, t). max (depth t)) es 0)"

fun shape :: "host \<Rightarrow> ss \<Rightarrow> string \<Rightarrow> dtree \<Rightarrow> bool" where
  "shape E s home Leaf \<longleftrightarrow> (\<exists>c. node_at E home s = Some (Regular c))"
| "shape E s home (Dir es) \<longleftrightarrow> node_at E home s = Some Folder \<and>
     (\<exists>names. (\<forall>tr. h_readdir E tr (file_at E home s) = Some names) \<and>
        filter (\<lambda>n. n \<noteq> ''.'' \<and> n \<noteq> ''..'') names = map fst es) \<and>
     (\<forall>(n, t) \<in> set es. path_fits (home @ ''/'' @ n) \<and> shape E s (home @ ''/'' @ n) t)"

fun listing :: "string \<Rightarrow> dtree \<Rightarrow> string list" where
  "listing home Leaf = [home]"
| "listing home (Dir es) = home # concat (map (\<lambda>(n, t).
     (if t = Leaf then [] else [home @ ''/'' @ n]) @ listing (home @ ''/'' @ n) t) es)"

lemma foldr_max: "(n, t) \<in> set es \<Longrightarrow> depth t \<le> foldr (\<lambda>(_, t). max (depth t)) es 0"
  by (induction es) auto

lemma listing_nonempty: "listing home t \<noteq> []"
  by (cases t) auto

text \<open>What the scan adds to the state, and that the tree does not depend on it.\<close>

definition scanned :: "string list \<Rightarrow> ss \<Rightarrow> ss" where
  "scanned ps s = s\<lparr>accessible_paths := accessible_paths s @ ps\<rparr>"

lemma scanned_simps [simp]:
  "scanned [] s = s" "scanned qs (scanned ps s) = scanned (ps @ qs) s"
  "accessible_paths (scanned ps s) = accessible_paths s @ ps" "file_at E p (scanned ps s) = file_at E p s"
  "node_at E p (scanned ps s) = node_at E p s" "trace (scanned ps s) = trace s"
  "disk (scanned ps s) = disk s"
  by (simp_all add: scanned_def node_at_def file_at_def)

lemma shape_scanned [simp]: "shape E (scanned ps s) home t = shape E s home t"
  by (induction E s home t rule: shape.induct) auto

lemma add_path_fits:
  "path_fits p \<Longrightarrow> length (accessible_paths s) < MAX_PATHS \<Longrightarrow> add_path p s = Inr (scanned [p] s)"
  by (simp add: add_path_def path_fits_def scanned_def)

lemma shape_stat:
  assumes "shape E s p t"
  obtains st where "c_stat E p s = Some st" "S_ISDIR (st_mode st) \<longleftrightarrow> t \<noteq> Leaf" "t = Leaf \<Longrightarrow> S_ISREG (st_mode st)"
proof -
  from assms obtain n where n: "node_at E p s = Some n" "n = Folder \<longleftrightarrow> t \<noteq> Leaf" by (cases t) auto
  then obtain st where st: "c_stat E p s = Some st" using c_stat_None [of E p s] by (cases "c_stat E p s") auto
  moreover have "S_ISREG (st_mode st)" if "t = Leaf"
  proof -
    have low: "(m AND 0x0FFF) AND 0xF000 = (0 :: 32 word)" for m by (simp add: and.assoc)
    from st n that show ?thesis
      by (auto simp: c_stat_def Let_def S_ISREG_def S_IFREG_def S_IFDIR_def bit.conj_disj_distrib2 low)
  qed
  ultimately show ?thesis using that c_stat_dir [OF st] n by auto
qed

lemma scan_entries_lists:
  assumes entries: "filter (\<lambda>n. n \<noteq> ''.'' \<and> n \<noteq> ''..'') names = map fst es"
    and shapes: "\<forall>(n, t) \<in> set es. path_fits (home @ ''/'' @ n) \<and> shape E s (home @ ''/'' @ n) t"
    and recur: "\<And>n t ps. (n, t) \<in> set es \<Longrightarrow> t \<noteq> Leaf \<Longrightarrow>
       length (accessible_paths s) + length ps + length (listing (home @ ''/'' @ n) t) \<le> MAX_PATHS \<Longrightarrow>
       recur (home @ ''/'' @ n) (scanned ps s) = Some (Inr (scanned (ps @ listing (home @ ''/'' @ n) t) s))"
    and room: "length (accessible_paths s) + length ps + length (concat (map (\<lambda>(n, t).
       (if t = Leaf then [] else [home @ ''/'' @ n]) @ listing (home @ ''/'' @ n) t) es)) \<le> MAX_PATHS"
  shows "scan_entries recur E home names (scanned ps s) =
    Some (Inr (scanned (ps @ concat (map (\<lambda>(n, t).
       (if t = Leaf then [] else [home @ ''/'' @ n]) @ listing (home @ ''/'' @ n) t) es)) s))"
  using assms
proof (induction names arbitrary: es ps)
  case Nil
  then show ?case by simp
next
  case (Cons name names)
  show ?case
  proof (cases "name = ''.'' \<or> name = ''..''")
    case True
    with Cons.prems Cons.IH [of es ps] show ?thesis by auto
  next
    case False
    with Cons.prems(1) obtain t es' where es: "es = (name, t) # es'"
      and es': "filter (\<lambda>n. n \<noteq> ''.'' \<and> n \<noteq> ''..'') names = map fst es'"
      by (cases es) auto
    let ?p = "home @ ''/'' @ name"
    from Cons.prems(2) es have p: "path_fits ?p" and sh: "shape E s ?p t" by auto
    then have full: "snprintf BUFFER_SIZE ?p = ?p" by (simp add: path_fits_def)
    have "shape E (scanned ps s) ?p t" using sh by simp
    then obtain st where st: "c_stat E ?p (scanned ps s) = Some st" "S_ISDIR (st_mode st) \<longleftrightarrow> t \<noteq> Leaf"
      "t = Leaf \<longrightarrow> S_ISREG (st_mode st)" by (rule shape_stat) simp_all
    let ?new = "(if t = Leaf then [] else [?p]) @ listing ?p t"
    have IH: "scan_entries recur E home names (scanned (ps @ ?new) s) =
      Some (Inr (scanned ((ps @ ?new) @ concat (map (\<lambda>(n, t).
       (if t = Leaf then [] else [home @ ''/'' @ n]) @ listing (home @ ''/'' @ n) t) es')) s))"
      by (rule Cons.IH [OF es']) (use Cons.prems es in \<open>auto\<close>)
    have room: "length (accessible_paths s) + length ps < MAX_PATHS"
      using Cons.prems(4) es listing_nonempty [of ?p t] by (cases "listing ?p t") auto
    show ?thesis
    proof (cases "t = Leaf")
      case True
      then show ?thesis
        using False st full room IH es by (simp add: add_path_fits p Let_def del: append_Cons append_assoc)
          (simp add: append_assoc)
    next
      case dir: False
      have "recur ?p (scanned (ps @ [?p]) s) = Some (Inr (scanned ((ps @ [?p]) @ listing ?p t) s))"
        by (rule Cons.prems(3)) (use es dir Cons.prems(4) in auto)
      with dir show ?thesis
        using False st full room IH es by (simp add: add_path_fits p Let_def del: append_Cons append_assoc)
          (simp add: append_assoc)
    qed
  qed
qed

lemma scan_lists:
  assumes tree: "shape E s home (Dir es)" and fits: "path_fits home" and fuel: "depth (Dir es) \<le> n"
    and room: "length (accessible_paths s) + length (listing home (Dir es)) \<le> MAX_PATHS"
  shows "scan_directory n E home s = Some (Inr (scanned (listing home (Dir es)) s))"
  using tree fits fuel room
proof (induction n arbitrary: home es s)
  case 0
  then show ?case by simp
next
  case (Suc n)
  from Suc.prems(1) obtain names where names: "\<And>tr. h_readdir E tr (file_at E home s) = Some names"
    "filter (\<lambda>n. n \<noteq> ''.'' \<and> n \<noteq> ''..'') names = map fst es"
    and shapes: "\<forall>(n, t) \<in> set es. path_fits (home @ ''/'' @ n) \<and> shape E s (home @ ''/'' @ n) t" by auto
  have "scan_entries (scan_directory n E) E home names (scanned [home] s) =
    Some (Inr (scanned ([home] @ concat (map (\<lambda>(n, t).
       (if t = Leaf then [] else [home @ ''/'' @ n]) @ listing (home @ ''/'' @ n) t) es)) s))"
  proof (rule scan_entries_lists [OF names(2) shapes])
    fix m t and ps :: "string list"
    assume mt: "(m, t) \<in> set es" and "t \<noteq> Leaf"
      and len: "length (accessible_paths s) + length ps + length (listing (home @ ''/'' @ m) t) \<le> MAX_PATHS"
    then obtain es' where t: "t = Dir es'" by (cases t) auto
    have sh: "path_fits (home @ ''/'' @ m)" "shape E s (home @ ''/'' @ m) (Dir es')"
      using shapes mt unfolding t by blast+
    have "depth t \<le> n" using foldr_max [OF mt] Suc.prems(3) by simp
    then have "scan_directory n E (home @ ''/'' @ m) (scanned ps s) =
        Some (Inr (scanned (listing (home @ ''/'' @ m) (Dir es')) (scanned ps s)))"
      using Suc.IH [of "scanned ps s" "home @ ''/'' @ m" es'] sh len unfolding t by simp
    then show "scan_directory n E (home @ ''/'' @ m) (scanned ps s) =
        Some (Inr (scanned (ps @ listing (home @ ''/'' @ m) t) s))" by (simp add: t)
  qed (use Suc.prems(4) in auto)
  with names(1) Suc.prems(2,4) show ?case by (simp add: add_path_fits)
qed

text \<open>
  C15: The scan ends, with as much fuel as the tree is deep, and lists the home directory and
  everything below it in the order of the directory entries, each file once and each folder below
  the home directory twice.
\<close>

lemma scan_directory_lists:
  assumes tree: "shape E s home (Dir es)" and fits: "path_fits home" and fuel: "depth (Dir es) \<le> n"
    and room: "length (accessible_paths s) + length (listing home (Dir es)) \<le> MAX_PATHS"
  shows "scan_directory n E home s = Some (Inr (scanned (listing home (Dir es)) s))"
  by (rule scan_lists [OF assms])

lemma scan_directory_lists_witness:
  "scan_directory 1 sample_host ''d'' sample_ss = Some (Inr (scanned [''d'', ''d/f.c''] sample_ss))"
proof -
  have "shape sample_host sample_ss ''d'' (Dir [(''f.c'', Leaf)])"
    by (simp add: node_at_def sample_host_def path_fits_def file_at_def)
  from scan_directory_lists [OF this, of 1] show ?thesis by (simp add: path_fits_def)
qed

end
