(* ===== verification/SS_Relation.thy ===== *)
theory SS_Relation
  imports SS_Server
begin

text \<open>
  What the requests of a storage server may do to its tables, proved once for all handlers: a
  relation that the elementary changes respect is respected by every handler but the reads.
\<close>

section \<open>Relations the handlers respect\<close>

text \<open>
  \<open>ok\<close> says which paths may be entered into the table of writers; what a write takes out of it never
  holds the flag, for \<open>sync_target\<close> cuts it off.
\<close>

locale ss_relation = state_relation R for R :: "ss \<Rightarrow> ss \<Rightarrow> bool" +
  fixes ok :: "string \<Rightarrow> bool"
  assumes R_trace: "R s (s\<lparr>trace := tr\<rparr>)"
    and R_disk: "R s (s\<lparr>disk := d\<rparr>)"
    and R_cwd: "R s (s\<lparr>cwd := w\<rparr>)"
    and R_extract: "R s (s\<lparr>extract_result := x\<rparr>)"
    and R_add: "ok p \<Longrightarrow> R s (add_accessible_path p s)"
    and R_take: "\<not> sublist '' --sync'' p \<Longrightarrow> delete_accessible_path p s = Inr t \<Longrightarrow> R s t"
begin

lemma R_emit: "R s t \<Longrightarrow> R s (emit ev t)"
  unfolding emit_def by (rule R_trans [OF _ R_trace])

lemma R_io:
  "R s t \<Longrightarrow> R s (send_text c m t)" "R s t \<Longrightarrow> R s (net_send c p t)" "R s t \<Longrightarrow> R s (net_close c t)"
  "R s t \<Longrightarrow> R s (emit ev t)"
  by (simp_all add: send_text_def net_send_def net_close_def R_emit)

lemma R_on_disk: "R s t \<Longrightarrow> R s (t\<lparr>disk := d\<rparr>)"
  by (rule R_trans [OF _ R_disk])

lemma R_enter: "ok p \<Longrightarrow> R s t \<Longrightarrow> R s (add_accessible_path p t)"
  by (blast intro: R_trans R_add)

text \<open>The calls: whatever a call returned, the state it leaves is related.\<close>

lemma R_sys: "R s t \<Longrightarrow> R s (snd (c_system E cmd t))"
  by (auto simp: c_system_def intro: R_emit R_on_disk split: prod.splits)

lemma R_chdir: "R s t \<Longrightarrow> R s (snd (c_chdir E p t))"
  by (auto simp: c_chdir_def intro: R_emit R_trans [OF _ R_cwd])

lemma R_fwrite: "R s t \<Longrightarrow> R s (snd (c_fwrite E k d t))"
  by (auto simp: c_fwrite_def Let_def intro: R_emit R_on_disk)

lemma R_open_read: "R s t \<Longrightarrow> R s (snd (open_read E p t))"
  by (auto simp: open_read_def Let_def intro: R_emit)

lemma R_open_write: "R s t \<Longrightarrow> R s (snd (open_write E m f p t))"
  by (auto simp: open_write_def Let_def intro: R_emit R_on_disk)

lemma R_fopen:
  "R s t \<Longrightarrow> R s (snd (fopen_append E p t))" "R s t \<Longrightarrow> R s (snd (fopen_trunc E p t))"
  by (simp_all add: fopen_append_def fopen_trunc_def R_open_write)

lemma R_excl: "R s t \<Longrightarrow> R s (snd (open_excl E p t))"
  by (auto simp: open_excl_def intro: R_emit R_open_write)

lemma R_remove: "R s t \<Longrightarrow> R s (snd (c_remove E m p t))"
  by (auto simp: c_remove_def Let_def intro: R_emit R_on_disk)

lemma R_recv: "R s t \<Longrightarrow> R s (snd (net_recv E c n t))"
  by (auto simp: net_recv_def R_emit split: option.splits)

lemma R_dial: "R s t \<Longrightarrow> R s (snd (dial E ip port t))"
  by (auto simp: dial_def R_emit)

lemma R_dial_unchecked: "R s t \<Longrightarrow> R s (snd (dial_unchecked E ip port t))"
  by (auto simp: dial_unchecked_def Let_def R_emit)

lemma R_local_ip: "R s t \<Longrightarrow> R s (snd (get_local_ip_address E t))"
  by (auto simp: get_local_ip_address_def R_emit split: option.splits)

lemma R_chunks: "R s t \<Longrightarrow> R s (snd (write_chunks E k rest t))"
proof (rule R_snd)
  fix ok t'
  assume "R s t" and "write_chunks E k rest t = (ok, t')"
  then obtain tr d where "t' = t\<lparr>trace := tr, disk := d\<rparr>"
    using write_chunks_tables by (blast elim: same_tables_ssE)
  then show "R s t'" using \<open>R s t\<close> R_trans R_trace R_disk by metis
qed

lemma R_blocks: "R s t \<Longrightarrow> R s (copy_blocks E k rest t)"
proof (induction E k rest t rule: copy_blocks.induct)
  case (1 E k rest t)
  have "R s (snd (c_fwrite E k (take BUFFER_SIZE rest) t))" by (rule R_fwrite [OF 1(2)])
  with 1 show ?case by (subst copy_blocks.simps) auto
qed

lemmas R_calls = R_io R_if R_blocks R_sys R_chdir R_fwrite R_open_read R_open_write R_fopen R_excl R_remove
  R_recv R_dial R_dial_unchecked R_local_ip R_chunks

lemmas walk = R_calls walk_through

section \<open>Reports\<close>

lemma tell_nm_R: "R s t \<Longrightarrow> R s (tell_nm E m t)"
  unfolding tell_nm_def by (assumption | rule walk)+

lemma notify_written_R: "R s t \<Longrightarrow> wlp (R s) (notify_written E ip port p data t)"
  unfolding notify_written_def by (assumption | simp only: prod.case | rule walk)+

section \<open>File operations\<close>

lemma write_check_R: "R s t \<Longrightarrow> wlp (\<lambda>(go, u). R s u) (write_check p c t)"
  unfolding write_check_def by (assumption | simp only: prod.case | rule walk wlp_bind_any)+

lemma delete_row_R: "\<not> sublist '' --sync'' p \<Longrightarrow> R s t \<Longrightarrow> wlp (R s) (delete_accessible_path p t)"
  by (auto simp: wlp_iff intro: R_trans R_take)

lemma write_open_R:
  "R s t \<Longrightarrow> wlp (\<lambda>(r, u). R s u \<and> (case r of None \<Rightarrow> True
       | Some (sync, target, bs, k) \<Rightarrow> \<not> sublist '' --sync'' target)) (write_open E p c t)"
proof -
  assume st: "R s t"
  have "wlp (\<lambda>(r, u). R s u) (write_open E p c t)"
    unfolding write_open_def by (insert st) (assumption | simp only: prod.case | rule walk wlp_bind_any wlp_prod)+
  moreover have "wlp (\<lambda>(r, u). case r of None \<Rightarrow> True
       | Some (sync, target, bs, k) \<Rightarrow> \<not> sublist '' --sync'' target) (write_open E p c t)"
    by (auto simp: wlp_iff write_open_def andthen_eq_Inr sync_target_unflagged split: prod.splits option.splits)
  ultimately show ?thesis by (auto simp: wlp_iff)
qed

lemma write_sync_R: "R s t \<Longrightarrow> R s (snd (write_sync E c k bs t))"
  unfolding write_sync_def by (assumption | rule walk)+

lemma write_data_R:
  assumes st: "R s t"
  shows "wlp (\<lambda>(r, u). R s u \<and> (case r of None \<Rightarrow> True
       | Some (target, bs) \<Rightarrow> \<not> sublist '' --sync'' target)) (write_data E p c t)"
proof -
  have "wlp (\<lambda>(r, u). R s u \<and> (case r of None \<Rightarrow> True | Some (target, bs) \<Rightarrow> \<not> sublist '' --sync'' target))
      (case (if \<not> sync then write_chunks E k bs u else write_sync E c k bs u) of
         (ok, s) \<Rightarrow> Inr (if ok then Some (target, bs) else None, s))"
    if "R s u" "\<not> sublist '' --sync'' target" for sync target bs k u
    using R_chunks [OF that(1), of E k bs] write_sync_R [OF that(1), of E c k bs] that(2)
    by (auto split: prod.splits)
  then show ?thesis
    unfolding write_data_def by (intro wlp_bind [OF write_open_R [OF st]])
      (auto split: option.split split del: if_split)
qed

lemma write_file_R:
  assumes p: "ok p" and st: "R s t"
  shows "wlp (R s) (write_file E p c ip port t)"
proof -
  have rest: "wlp (R s) (andthen (write_data E p c u) (\<lambda>(r, v). case r of None \<Rightarrow> Inr v
      | Some (target, data) \<Rightarrow> andthen (delete_accessible_path target v) (\<lambda>w. notify_written E ip port target data w)))"
    if "R s u" for u
  proof -
    have "wlp (R s) (andthen (delete_accessible_path target v) (\<lambda>w. notify_written E ip port target data w))"
      if "R s v" "\<not> sublist '' --sync'' target" for target data v
      using delete_row_R [OF that(2,1)] notify_written_R by (rule wlp_state_bind)
    then show ?thesis
      by (intro wlp_bind [OF write_data_R [OF that]]) (auto split: option.split simp del: wlp_andthen)
  qed
  have "wlp (R s) (if \<not> go then Inr u else andthen (write_data E p c (add_accessible_path p u))
      (\<lambda>(r, v). case r of None \<Rightarrow> Inr v | Some (target, data) \<Rightarrow>
         andthen (delete_accessible_path target v) (\<lambda>w. notify_written E ip port target data w)))"
    if "R s u" for go u
    using rest [OF R_enter [OF p that]] that by (intro wlp_if_split wlp_done)
  then show ?thesis
    unfolding write_file_def by (intro wlp_pair_bind [OF write_check_R [OF st]]) (simp only: prod.case)
qed

lemma copy_to_file_R: "R s t \<Longrightarrow> wlp (R s) (copy_to_file E p c t)"
  unfolding copy_to_file_def by (assumption | simp only: prod.case | rule walk wlp_bind_any wlp_prod)+

lemma get_file_info_R: "R s t \<Longrightarrow> R s (get_file_info E p c t)"
  unfolding get_file_info_def by (assumption | simp only: prod.case | rule walk)+

lemma create_file_R: "R s t \<Longrightarrow> wlp (R s) (create_file E p f c t)"
  unfolding create_file_def Let_def by (assumption | simp only: prod.case | rule walk)+

lemma delete_check_R:
  "R s t \<Longrightarrow> wlp (\<lambda>(go, u). R s u) (delete_check p c t)" "R s t \<Longrightarrow> wlp (\<lambda>(go, u). R s u) (delete_check2 p c t)"
  unfolding delete_check_def delete_check2_def
  by (assumption | simp only: prod.case | rule walk wlp_bind_any)+

lemma delete_node_R: "R s t \<Longrightarrow> R s (delete_node E p c t)"
  unfolding delete_node_def by (assumption | simp only: prod.case | rule walk)+

lemma delete_file_or_directory_R: "R s t \<Longrightarrow> wlp (R s) (delete_file_or_directory E p c t)"
  unfolding delete_file_or_directory_def
  by (assumption | simp only: prod.case | rule walk delete_node_R wlp_pair_bind [OF delete_check_R(1)]
      wlp_pair_bind [OF delete_check_R(2)])+

lemma handle_copy_R: "R s t \<Longrightarrow> R s (handle_copy E c p q t)"
  unfolding handle_copy_def by (assumption | simp only: prod.case | rule walk)+

lemma save_backup_R: "R s t \<Longrightarrow> wlp (R s) (save_backup E c a t)"
  unfolding save_backup_def Let_def by (assumption | simp only: prod.case | rule walk wlp_bind_any)+

section \<open>Folder copies\<close>

lemma zip_folder_R: "R s t \<Longrightarrow> R s (snd (zip_folder E p t))"
  unfolding zip_folder_def Let_def
  by (cases "split_path p", simp only: prod.case) (assumption | simp only: prod.case | rule walk)+

lemma send_archive_R: "R s t \<Longrightarrow> R s (snd (send_archive E k r a f t))"
  unfolding send_archive_def Let_def by (assumption | simp only: prod.case | rule walk)+

lemma copy_from_folder_R: "R s t \<Longrightarrow> wlp (\<lambda>(r, u). R s u) (copy_from_folder E text c t)"
  unfolding copy_from_folder_def Let_def
  by (assumption | simp only: prod.case | rule zip_folder_R send_archive_R wlp_bool walk wlp_bind_any wlp_prod)+

lemma extract_path_R: "R s t \<Longrightarrow> wlp (\<lambda>(r, u). R s u) (extract_path p t)"
  unfolding extract_path_def
  by (assumption | simp only: prod.case | rule R_trans [OF _ R_extract] walk wlp_bind_any)+

lemma paste_to_folder_R: "R s t \<Longrightarrow> wlp (R s) (paste_to_folder E p c t)"
  unfolding paste_to_folder_def Let_def
  by (assumption | simp only: prod.case | rule walk wlp_pair_bind [OF extract_path_R] wlp_bind_any)+

section \<open>Requests\<close>

lemma client_write_R: "ok arg \<Longrightarrow> R s t \<Longrightarrow> wlp (R s) (client_write E c buffer arg t)"
  unfolding client_write_def
  by (assumption | simp only: prod.case | rule walk tell_nm_R wlp_state_bind [OF write_file_R])+

lemma client_create_R: "R s t \<Longrightarrow> wlp (R s) (client_create E c text t)"
  unfolding client_create_def
  by (assumption | simp only: prod.case | rule create_file_R wlp_bind_any wlp_option wlp_prod)+

lemma client_copy_R:
  "R s t \<Longrightarrow> wlp (R s) (andthen (copy_to_file E p c t) (\<lambda>s. Inr (if b then tell_nm E m s else s)))"
  by (assumption | simp only: prod.case | rule walk tell_nm_R wlp_state_bind [OF copy_to_file_R])+

lemma client_folder_R:
  "R s t \<Longrightarrow> wlp (R s) (andthen (copy_from_folder E p c t)
     (\<lambda>(ecode, s). Inr (if ecode = 0 then tell_nm E m s else s)))"
  by (assumption | simp only: prod.case | rule walk tell_nm_R wlp_pair_bind [OF copy_from_folder_R])+

lemmas client_R = client_copy_R client_folder_R client_create_R paste_to_folder_R
  delete_file_or_directory_R

lemma handle_nm_request_R: "R s t \<Longrightarrow> wlp (R s) (handle_nm_request E fd t)"
  unfolding handle_nm_request_def Let_def
  by (assumption | simp only: prod.case | rule walk wlp_bind_any wlp_prod
      wlp_state_bind create_file_R delete_file_or_directory_R handle_copy_R save_backup_R)+

lemma handle_ss_request_R: "R s t \<Longrightarrow> wlp (R s) (handle_ss_request E fd t)"
  unfolding handle_ss_request_def Let_def
  by (assumption | simp only: prod.case | rule walk wlp_bind_any wlp_prod handle_copy_R)+

end

text \<open>A relation that the table of readers does not matter to is respected by every request.\<close>

locale request_relation = ss_relation +
  assumes R_readers: "R s (s\<lparr>files_being_read := rows\<rparr>)"
begin

lemma read_file_R: "R s t \<Longrightarrow> wlp (R s) (read_file E p c t)"
proof -
  assume st: "R s t"
  have enter: "R s (add_accessible_path2 p u)" if "R s u" for u
    using that by (auto simp: add_accessible_path2_def intro: R_trans [OF _ R_readers])
  have blocks: "R s (send_blocks E c rest u)" if "R s u" for u rest
    using same_ssE [OF send_blocks_same [of u E c rest]] that R_trans [OF _ R_trace] by metis
  have leave: "wlp (R s) (delete_accessible_path2 p u)" if "R s u" for u
    unfolding delete_accessible_path2_def
    by (insert that) (assumption | simp only: prod.case | rule walk R_trans [OF _ R_readers] wlp_bind_any)+
  have check: "wlp (\<lambda>(go, u). R s u) (read_check p c t)"
    unfolding read_check_def by (insert st) (assumption | simp only: prod.case | rule walk wlp_bind_any)+
  have send: "R s (snd (read_send E p c u))" if "R s u" for u
    using that R_open_read [OF that, of E p] by (auto simp: read_send_def blocks split: prod.splits option.splits)
  show ?thesis
    unfolding read_file_def
    by (rule wlp_pair_bind [OF check])
      (assumption | simp only: prod.case | rule leave send enter wlp_bool walk)+
qed

lemma client_command_R: "ok (arg_at E 6 bs) \<Longrightarrow> R s t \<Longrightarrow> wlp (R s) (client_command E c bs t)"
  unfolding client_command_def Let_def stream_audio_file_def
  by (intro wlp_if_split read_file_R client_R client_write_R get_file_info_R wlp_done R_io)

lemma serve_client_R:
  assumes "\<And>bs. length bs < BUFFER_SIZE \<Longrightarrow> ok (arg_at E 6 bs)" and st: "R s t"
  shows "wlp (R s) (handle_client_request E fd t)"
proof -
  obtain b t1 where recv: "net_recv E (Conn fd) (BUFFER_SIZE - 1) t = (b, t1)" by fastforce
  have t1: "R s t1" using R_recv [OF st, of E "Conn fd" "BUFFER_SIZE - 1"] recv by simp
  have len: "length bs < BUFFER_SIZE" if "b = Some bs" for bs
    using recv that by (auto simp: net_recv_def split: option.splits)
  have "wlp (R s) (andthen (client_command E (Conn fd) bs t1) (\<lambda>u. Inr (net_close (Conn fd) u)))" if "b = Some bs" for bs
    using client_command_R [OF assms(1) [OF len [OF that]] t1] by (rule wlp_state_bind) (intro wlp_done R_io)
  with t1 show ?thesis
    by (cases b) (auto simp: handle_client_request_def Let_def recv [simplified] R_io simp del: wlp_andthen)
qed

end

end
