(* ===== verification/SS_Requests.thy ===== *)
theory SS_Requests
  imports SS_Relation
begin

text \<open>
  Sequences of requests to a storage server: what survives them, and what a client is told.
\<close>

section \<open>Requests\<close>

text \<open>A connection of a client, of the naming server or of another storage server.\<close>

datatype request = Client_request nat | NM_request nat | SS_request nat

fun serve :: "host \<Rightarrow> request \<Rightarrow> ss \<Rightarrow> ss result" where
  "serve E (Client_request fd) s = handle_client_request E fd s"
| "serve E (NM_request fd) s = handle_nm_request E fd s"
| "serve E (SS_request fd) s = handle_ss_request E fd s"

fun serve_all :: "host \<Rightarrow> request list \<Rightarrow> ss \<Rightarrow> ss result" where
  "serve_all E [] s = Inr s"
| "serve_all E (r # rs) s = andthen (serve E r s) (serve_all E rs)"

section \<open>The rows of readers\<close>

definition same_readers :: "ss \<Rightarrow> ss \<Rightarrow> bool" where
  "same_readers s s' \<longleftrightarrow> files_being_read s' = files_being_read s"

definition same_settings :: "ss \<Rightarrow> ss \<Rightarrow> bool" where
  "same_settings s s' \<longleftrightarrow> global_nm_ip s' = global_nm_ip s \<and> global_nm_port s' = global_nm_port s \<and>
     global_dir_path s' = global_dir_path s \<and> ac s' = ac s \<and> accessible_paths s' = accessible_paths s"

interpretation readers: ss_relation same_readers "\<lambda>_. True"
  by unfold_locales (auto simp: same_readers_def add_accessible_path_def delete_accessible_path_def
      andthen_eq_Inr split: option.splits)

interpretation settings: request_relation same_settings "\<lambda>_. True"
  by unfold_locales (auto simp: same_settings_def add_accessible_path_def delete_accessible_path_def
      andthen_eq_Inr split: option.splits)

text \<open>One request leaves every row in place and adds at most one.\<close>

definition rows_grow :: "ss \<Rightarrow> ss \<Rightarrow> bool" where
  "rows_grow s s' \<longleftrightarrow> mset (files_being_read s) \<subseteq># mset (files_being_read s') \<and>
     length (files_being_read s') \<le> Suc (length (files_being_read s))"

lemma same_rows_grow: "same_readers s s' \<Longrightarrow> rows_grow s s'"
  by (simp add: same_readers_def rows_grow_def)

lemma wlp_same_rows: "wlp (same_readers s) m \<Longrightarrow> wlp (rows_grow s) m"
  by (erule wlp_mono) (rule same_rows_grow)

lemma read_send_rows: "read_send E p c s = (ok, s') \<Longrightarrow> files_being_read s' = files_being_read s"
proof -
  assume run: "read_send E p c s = (ok, s')"
  have "same_readers s (snd (open_read E p s))" by (rule readers.R_open_read) (simp add: same_readers_def)
  with run show ?thesis
    by (auto simp: read_send_def same_readers_def same_ssD [OF send_blocks_same] split: prod.splits option.splits)
qed

lemma read_file_rows:
  assumes fits: "path_fits p" and room: "length (files_being_read s) < MAX_PATHS"
  shows "wlp (rows_grow s) (read_file E p c s)"
proof (cases "p \<in> set (files_being_accessed s)")
  case True
  with fits show ?thesis
    by (simp add: read_file_def read_check_eq rows_grow_def send_text_def net_send_def emit_def)
next
  case False
  obtain ok s1 where run: "read_send E p c (s\<lparr>files_being_read := files_being_read s @ [p]\<rparr>) = (ok, s1)" by fastforce
  then have rows: "files_being_read s1 = files_being_read s @ [p]" by (auto dest: read_send_rows)
  with False fits room run show ?thesis
    by (cases ok) (simp_all add: read_file_def read_check_eq add_fits delete_accessible_path2_fits rows_grow_def length_remove1)
qed

lemma rows_grow_close: "wlp (rows_grow s) m \<Longrightarrow> wlp (rows_grow s) (andthen m (\<lambda>s. Inr (net_close c s)))"
  by (simp, erule wlp_mono) (simp add: rows_grow_def net_close_def emit_def)

lemma client_command_rows:
  assumes fits: "path_fits (arg_at E 5 bs)" "path_fits (arg_at E 7 bs)"
    and room: "length (files_being_read s) < MAX_PATHS"
  shows "wlp (rows_grow s) (client_command E c bs s)"
  unfolding client_command_def Let_def stream_audio_file_def
  by (intro wlp_if_split read_file_rows fits room wlp_same_rows readers.client_R readers.client_write_R TrueI readers.get_file_info_R
      readers.wlp_done readers.R_io readers.R_refl)

lemma arg_fits: "length bs < BUFFER_SIZE \<Longrightarrow> path_fits (e_junk E ''buffer'') \<Longrightarrow> path_fits (arg_at E n bs)"
  using length_c_str [of "drop n bs"] by (auto simp: arg_at_def path_fits_def)

lemma serve_rows:
  assumes junk: "path_fits (e_junk E ''buffer'')" and room: "length (files_being_read s) < MAX_PATHS"
  shows "wlp (rows_grow s) (serve E r s)"
proof (cases r)
  case (Client_request fd)
  obtain b s1 where recv: "net_recv E (Conn fd) (BUFFER_SIZE - 1) s = (b, s1)" by fastforce
  have same: "files_being_read s1 = files_being_read s" using same_ssD [OF same_ss_recv [OF recv]] by simp
  then have trans: "rows_grow s1 = rows_grow s" by (auto simp: rows_grow_def fun_eq_iff)
  have len: "length bs < BUFFER_SIZE" if "b = Some bs" for bs
    using recv that by (auto simp: net_recv_def split: option.splits)
  have "wlp (rows_grow s) (client_command E (Conn fd) bs s1)" if "b = Some bs" for bs
    using client_command_rows [of E bs s1 "Conn fd"] arg_fits [OF len [OF that] junk] room
    by (simp add: same trans)
  then show ?thesis
    using recv same
    by (cases b) (auto simp: Client_request handle_client_request_def Let_def rows_grow_def net_close_def emit_def
        simp del: wlp_andthen intro: rows_grow_close [unfolded net_close_def emit_def])
next
  case (NM_request fd)
  show ?thesis
    using wlp_same_rows [OF readers.handle_nm_request_R [OF readers.R_refl]] by (simp add: NM_request)
next
  case (SS_request fd)
  show ?thesis
    using wlp_same_rows [OF readers.handle_ss_request_R [OF readers.R_refl]] by (simp add: SS_request)
qed

section \<open>Settings\<close>

text \<open>
  C39: No request, whatever it says and however it ends, changes the settings of the server: where
  the naming server is, the home directory for backups, the port it is known by, and the list of
  paths it registered.
\<close>

lemma settings_fixed: "wlp (\<lambda>s'. global_nm_ip s' = global_nm_ip s \<and> global_nm_port s' = global_nm_port s \<and>
     global_dir_path s' = global_dir_path s \<and> ac s' = ac s \<and> accessible_paths s' = accessible_paths s)
   (serve_all E rs s)"
proof -
  have one: "wlp (same_settings s) (serve E r t)" if "same_settings s t" for r t
    using that by (cases r) (simp_all add: settings.serve_client_R settings.handle_nm_request_R
        settings.handle_ss_request_R)
  have "wlp (same_settings s) (serve_all E rs t)" if "same_settings s t" for t
    using that
  proof (induction rs arbitrary: t)
    case (Cons r rs)
    with one [OF Cons.prems, of r] show ?case by (auto simp: wlp_iff andthen_eq_Inr)
  qed simp
  from wlp_mono [OF this [OF settings.R_refl]] show ?thesis by (simp add: same_settings_def)
qed

section \<open>A failed read blocks all writes\<close>

lemma serve_all_rows:
  assumes junk: "path_fits (e_junk E ''buffer'')" and room: "length (files_being_read s) + length rs \<le> MAX_PATHS"
  shows "wlp (\<lambda>s'. mset (files_being_read s) \<subseteq># mset (files_being_read s')) (serve_all E rs s)"
  using room
proof (induction rs arbitrary: s)
  case (Cons r rs)
  have one: "wlp (rows_grow s) (serve E r s)" by (rule serve_rows [OF junk]) (use Cons.prems in simp)
  have "wlp (\<lambda>s'. mset (files_being_read s) \<subseteq># mset (files_being_read s')) (serve_all E rs t)"
    if "rows_grow s t" for t
  proof (rule wlp_mono [OF Cons.IH])
    show "length (files_being_read t) + length rs \<le> MAX_PATHS"
      using that Cons.prems by (simp add: rows_grow_def)
  qed (use that in \<open>auto simp: rows_grow_def intro: subset_mset.order_trans\<close>)
  with one show ?case by (auto simp: wlp_iff andthen_eq_Inr)
qed simp

lemma request_read:
  assumes "CHR 0x00 \<notin> set p"
  shows "client_command E c (''READ '' @ p) s = read_file E p c s"
  using assms by (simp add: client_command_def arg_at_def strncmp_eq_def)

text \<open>
  C19: Once a client asked to read a file that does not exist, every write to it is refused because
  it is supposedly being read, whatever requests come in between; the row of the failed read is
  never taken out.
\<close>

lemma failed_read_blocks_writes:
  assumes name: "path_fits p" "CHR 0x00 \<notin> set p" and none: "node_at E p s = None"
    and free: "p \<notin> set (files_being_accessed s)" and junk: "path_fits (e_junk E ''buffer'')"
    and room: "length (files_being_read s) + length rs < MAX_PATHS"
  shows "wlp (\<lambda>s'. write_file E' p d ip port s' = Inr (send_text d ''Another client is reading this file'' s'))
     (andthen (client_command E c (''READ '' @ p) s) (serve_all E rs))"
proof -
  let ?s1 = "emit (SysFail ''open'') (s\<lparr>files_being_read := files_being_read s @ [p]\<rparr>)"
  have read: "client_command E c (''READ '' @ p) s = Inr ?s1"
    unfolding request_read [OF name(2)] using read_file_missing [OF name(1) _ free none] room by simp
  have "wlp (\<lambda>s'. mset (files_being_read ?s1) \<subseteq># mset (files_being_read s')) (serve_all E rs ?s1)"
    by (rule serve_all_rows [OF junk]) (use room in simp)
  then have "wlp (\<lambda>s'. p \<in> set (files_being_read s')) (serve_all E rs ?s1)"
    by (rule wlp_mono) (drule mset_subset_eqD [where x = p], simp_all)
  then show ?thesis
    unfolding read andthen_Inr by (rule wlp_mono) (rule write_file_refused [OF name(1)])
qed

lemma failed_read_blocks_writes_witness:
  "wlp (\<lambda>s'. write_file sample_host ''nope'' (Conn 6) None 0 s' =
        Inr (send_text (Conn 6) ''Another client is reading this file'' s'))
     (andthen (client_command sample_host (Conn 5) (''READ '' @ ''nope'') sample_ss)
       (serve_all sample_host [Client_request 7, NM_request 8]))"
  by (rule failed_read_blocks_writes) (simp_all add: path_fits_def sample_host_def node_at_def file_at_def)

section \<open>Synchronous writes keep their row\<close>

text \<open>
  A row of writers with the flag in it stays: writes enter the path with the flag and take out the
  path without it.
\<close>

definition keeps_row :: "string \<Rightarrow> ss \<Rightarrow> ss \<Rightarrow> bool" where
  "keeps_row row s s' \<longleftrightarrow> (rows_ok (files_being_accessed s) \<and> row \<in> set (files_being_accessed s) \<longrightarrow>
     rows_ok (files_being_accessed s') \<and> row \<in> set (files_being_accessed s'))"

lemma keeps_row_take:
  assumes "\<not> sublist '' --sync'' p" and "delete_accessible_path p s = Inr t"
  shows "keeps_row (u @ '' --sync'') s t"
proof -
  have other: "u @ '' --sync'' \<noteq> p" using assms(1) by (metis sublist_appendI append_Nil2)
  have "delete_row i rows = remove1 p rows" if "rows_ok rows" "find_row p rows = Inr (Some i)" for rows i
    using find_row_rows_ok [OF that] by (intro delete_row_first) simp
  with assms(2) other show ?thesis
    by (auto simp: keeps_row_def delete_accessible_path_def andthen_eq_Inr in_set_remove1 rows_ok_remove1 split: option.splits)
qed

interpretation flagged: request_relation "keeps_row (u @ '' --sync'')" path_fits for u
proof (unfold_locales, goal_cases)
  case (7 p s)
  then show ?case
    by (auto simp: keeps_row_def add_accessible_path_def rows_ok_def path_fits_def)
next
  case (8 p s t)
  then show ?case by (rule keeps_row_take)
qed (auto simp: keeps_row_def)

lemma serve_all_flagged:
  assumes junk: "path_fits (e_junk E ''buffer'')"
  shows "wlp (keeps_row (u @ '' --sync'') s) (serve_all E rs s)"
proof -
  have one: "wlp (keeps_row (u @ '' --sync'') s) (serve E r t)" if "keeps_row (u @ '' --sync'') s t" for r t
    using that arg_fits [OF _ junk] by (cases r) (simp_all add: flagged.serve_client_R flagged.handle_nm_request_R
        flagged.handle_ss_request_R)
  have "wlp (keeps_row (u @ '' --sync'') s) (serve_all E rs t)" if "keeps_row (u @ '' --sync'') s t" for t
    using that
  proof (induction rs arbitrary: t)
    case (Cons r rs)
    with one [OF Cons.prems, of r] show ?case by (auto simp: wlp_iff andthen_eq_Inr)
  qed simp
  then show ?thesis using flagged.R_refl .
qed

text \<open>
  C21: After one synchronous write to a file, which succeeds, the file can no longer be deleted: the
  row the write entered has the flag in its name and is never taken out. Whatever requests come
  later, in every state the server reaches through them a deletion is refused as if a client were
  writing.
\<close>

lemma sync_write_blocks_delete:
  assumes ok: "access_ok s" and fits: "path_fits (u @ '' --sync'')"
    and room: "length (files_being_accessed s) < MAX_PATHS"
    and free: "u @ '' --sync'' \<notin> set (files_being_read s)" "u \<notin> set (files_being_accessed s)"
    and got: "got E c bs s" and u: "CHR '' '' \<notin> set u"
    and dest: "disk s (file_at E u s) \<noteq> Some Folder" and grant: "\<And>tr. h_open E tr (file_at E u s)"
    and all: "\<And>tr n. n \<le> h_fwrite E tr n" and nm: "nm_reachable E s"
    and junk: "path_fits (e_junk E2 ''buffer'')"
  shows "wp (\<lambda>s'. disk s' = appended E u bs s \<and>
      wlp (\<lambda>s''. delete_file_or_directory E' u d s'' =
            Inr (send_text d ''Cannot delete, a client is writing to a file in this directory'' s''))
          (serve_all E2 rs s'))
     (write_file E (u @ '' --sync'') c (Some ip) port s)"
proof (rule wp_mono [OF write_file_sync [OF assms(2-11), of ip port]])
  fix s' :: ss
  let ?row = "u @ '' --sync''"
  assume s': "disk s' = appended E u bs s \<and> files_being_read s' = files_being_read s \<and>
    files_being_accessed s' = files_being_accessed s @ [?row]"
  with ok fits have rows: "rows_ok (files_being_accessed s')" "?row \<in> set (files_being_accessed s')"
    by (simp_all add: access_ok_def rows_ok_append)
  have "wlp (\<lambda>s''. delete_file_or_directory E' u d s'' =
      Inr (send_text d ''Cannot delete, a client is writing to a file in this directory'' s'')) (serve_all E2 rs s')"
    by (rule wlp_mono [OF serve_all_flagged [OF junk]])
      (use rows in \<open>auto simp: keeps_row_def intro: delete_busy [where r = ?row]\<close>)
  with s' show "disk s' = appended E u bs s \<and> wlp (\<lambda>s''. delete_file_or_directory E' u d s'' =
      Inr (send_text d ''Cannot delete, a client is writing to a file in this directory'' s'')) (serve_all E2 rs s')"
    by blast
qed

lemma sync_write_blocks_delete_witness:
  "wp (\<lambda>s'. wp (\<lambda>s''. delete_file_or_directory sample_host ''d/f.c'' (Conn 6) s'' =
        Inr (send_text (Conn 6) ''Cannot delete, a client is writing to a file in this directory'' s''))
      (serve_all sample_host [Client_request 7, Client_request 8] s'))
     (write_file sample_host (''d/f.c'' @ '' --sync'') (Conn 5) (Some ''10.0.0.1'') 5001 sample_ss)"
proof -
  have run: "wp (\<lambda>_. True) (serve_all sample_host [Client_request 7, Client_request 8] s')" for s'
    by (simp add: handle_client_request_def client_command_def Let_def net_recv_def strncmp_eq_def)
  have "wp (\<lambda>s'. disk s' = appended sample_host ''d/f.c'' ''data'' sample_ss \<and>
      wlp (\<lambda>s''. delete_file_or_directory sample_host ''d/f.c'' (Conn 6) s'' =
        Inr (send_text (Conn 6) ''Cannot delete, a client is writing to a file in this directory'' s''))
      (serve_all sample_host [Client_request 7, Client_request 8] s'))
     (write_file sample_host (''d/f.c'' @ '' --sync'') (Conn 5) (Some ''10.0.0.1'') 5001 sample_ss)"
    by (rule sync_write_blocks_delete) (simp_all add: path_fits_def got_def sample_host_def [THEN arg_cong [where f = e_junk]])
  then show ?thesis by (rule wp_mono) (use run in \<open>auto simp: wp_iff wlp_iff\<close>)
qed

section \<open>A refused write is reported as done\<close>

text \<open>
  A write the server refuses, because the file is being read, leaves the file as it is and is
  nevertheless reported to the naming server as a completed write of that file.
\<close>

lemma refused_write_report:
  assumes name: "path_fits p" "CHR 0x00 \<notin> set p" "\<not> sublist ''--sync'' (''WRITE '' @ p)"
    and busy: "p \<in> set (files_being_read s)" and nm: "nm_reachable E s"
  shows "wp (\<lambda>s'. disk s' = disk s \<and>
            replies (Conn fd) s' = replies (Conn fd) s @ [Text ''Another client is reading this file''] \<and>
            delivered s' = delivered s @ [(Some (nm_address s), Text (snprintf BUFFER_SIZE (''write '' @ p)))])
     (client_command E (Conn fd) (''WRITE '' @ p) s)"
proof -
  let ?b = "''WRITE '' @ p"
  obtain ip s1 where ip: "get_local_ip_address E s = (ip, s1)" by fastforce
  then have s1: "same_ss s s1" "delivered s1 = delivered s" "replies (Conn fd) s1 = replies (Conn fd) s"
    by (auto simp: get_local_ip_address_def delivered_def replies_def split: if_splits option.splits)
  have "strstr ''--sync'' ?b = None" using name(3) strstr_None by blast
  moreover have "c_str ?b = ?b" and "arg_at E 6 ?b = p" using name(2) by (simp_all add: arg_at_def)
  moreover have "write_file E p (Conn fd) ip (ac s1) s1 =
      Inr (send_text (Conn fd) ''Another client is reading this file'' s1)"
    by (rule write_file_refused [OF name(1)]) (simp add: same_ssD [OF s1(1)] busy)
  ultimately have run: "client_command E (Conn fd) ?b s = Inr (tell_nm E (snprintf BUFFER_SIZE (''write '' @ p))
      (send_text (Conn fd) ''Another client is reading this file'' s1))"
    using ip by (simp add: client_command_def client_write_def strncmp_eq_def Let_def)
  have "nm_reachable E (send_text (Conn fd) ''Another client is reading this file'' s1)"
    using nm same_ssD [OF s1(1)] by (simp add: nm_reachable_def send_text_def net_send_def emit_def)
  then show ?thesis
    unfolding run using s1 same_ssD [OF s1(1)] same_ss_disk [OF s1(1)]
    by (simp add: tell_nm_def dial_reachable nm_address_def send_text_def net_send_def net_close_def
        delivered_def replies_def) (simp add: emit_def)
qed

lemma refused_write_report_witness:
  "wp (\<lambda>s'. delivered s' = [(Some (''10.0.0.9'', 8081), Text ''write d/f.c'')])
     (client_command sample_host (Conn 5) (''WRITE '' @ ''d/f.c'') (sample_ss\<lparr>files_being_read := [''d/f.c'']\<rparr>))"
proof -
  have "\<not> sublist ''--sync'' (''WRITE '' @ ''d/f.c'')" by (simp add: sublist_code)
  then show ?thesis
    using refused_write_report [of "''d/f.c''" "sample_ss\<lparr>files_being_read := [''d/f.c'']\<rparr>" sample_host 5]
    by (auto simp: path_fits_def nm_address_def htons_def delivered_def elim!: wp_mono)
qed

end
