(* ===== verification/SS_Threads.thy ===== *)
theory SS_Threads
  imports SS_Requests
begin

text \<open>
  Readers, writers and deleters of one storage server as threads, interleaved between their critical
  sections and, for a writer, where it sleeps behind each chunk. A step of a thread is one of the
  pieces of \<^theory_text>\<open>SS_Files\<close>; \<open>thread_writes\<close> composes the pieces of a write again. The
  sending of a file and the report to the naming server are one step each: they change no table and
  no file. A file is sent with the content it has at that step.
\<close>

section \<open>Threads\<close>

text \<open>
  Where a thread is, with the path it works on. \<open>Read_left\<close> and \<open>Write_left\<close> are threads that
  gave up and left their row behind.
\<close>

datatype phase =
    Read_check string | Read_enter string | Read_send string | Read_leave string | Read_left string
  | Write_check string | Write_enter string | Write_data string
  | Write_chunks string string string string string   \<comment> \<open>row, target, file, data, rest\<close>
  | Write_sync string string string string            \<comment> \<open>row, target, file, data\<close>
  | Write_leave string string
  | Write_notify string string | Write_left string
  | Delete_check string | Delete_check2 string | Delete_node string
  | Done

fun starts :: "phase \<Rightarrow> bool" where
  "starts (Read_check p) = path_fits p"
| "starts (Write_check p) = path_fits p"
| "starts (Delete_check p) = path_fits p"
| "starts _ = False"

record server =
  proc :: ss
  threads :: "phase list"

definition at_phase :: "server \<Rightarrow> nat \<Rightarrow> phase \<Rightarrow> bool" where
  "at_phase S t ph \<longleftrightarrow> t < length (threads S) \<and> threads S ! t = ph"

definition goes :: "server \<Rightarrow> nat \<Rightarrow> phase \<Rightarrow> ss \<Rightarrow> server" where
  "goes S t ph s = S\<lparr>proc := s, threads := (threads S)[t := ph]\<rparr>"

inductive tstep :: "host \<Rightarrow> server \<Rightarrow> server \<Rightarrow> bool" for E :: host where
  spawn: "starts ph \<Longrightarrow> tstep E S (S\<lparr>threads := threads S @ [ph]\<rparr>)"
| r_check: "at_phase S t (Read_check p) \<Longrightarrow> read_check p (Conn t) (proc S) = Inr (go, s) \<Longrightarrow>
    tstep E S (goes S t (if go then Read_enter p else Done) s)"
| r_enter: "at_phase S t (Read_enter p) \<Longrightarrow>
    tstep E S (goes S t (Read_send p) (add_accessible_path2 p (proc S)))"
| r_send: "at_phase S t (Read_send p) \<Longrightarrow> read_send E p (Conn t) (proc S) = (ok, s) \<Longrightarrow>
    tstep E S (goes S t (if ok then Read_leave p else Read_left p) s)"
| r_leave: "at_phase S t (Read_leave p) \<Longrightarrow> delete_accessible_path2 p (proc S) = Inr s \<Longrightarrow>
    tstep E S (goes S t Done s)"
| w_check: "at_phase S t (Write_check p) \<Longrightarrow> write_check p (Conn t) (proc S) = Inr (go, s) \<Longrightarrow>
    tstep E S (goes S t (if go then Write_enter p else Done) s)"
| w_enter: "at_phase S t (Write_enter p) \<Longrightarrow>
    tstep E S (goes S t (Write_data p) (add_accessible_path p (proc S)))"
| w_open: "at_phase S t (Write_data p) \<Longrightarrow> write_open E p (Conn t) (proc S) = Inr (r, s) \<Longrightarrow>
    tstep E S (goes S t (case r of None \<Rightarrow> Write_left p
      | Some (sync, target, data, k) \<Rightarrow>
          if \<not> sync then Write_chunks p target k data data else Write_sync p target k data) s)"
| w_chunk: "at_phase S t (Write_chunks p target k data rest) \<Longrightarrow> rest \<noteq> [] \<Longrightarrow>
    c_fwrite E k (take CHUNK_SIZE rest) (proc S) = (n, s) \<Longrightarrow>
    tstep E S (goes S t (if n < length (take CHUNK_SIZE rest) then Write_left p
      else Write_chunks p target k data (drop CHUNK_SIZE rest)) s)"
| w_chunks_done: "at_phase S t (Write_chunks p target k data []) \<Longrightarrow>
    tstep E S (goes S t (Write_leave target data) (proc S))"
| w_sync: "at_phase S t (Write_sync p target k data) \<Longrightarrow> write_sync E (Conn t) k data (proc S) = (ok, s) \<Longrightarrow>
    tstep E S (goes S t (if ok then Write_leave target data else Write_left p) s)"
| w_leave: "at_phase S t (Write_leave target data) \<Longrightarrow> delete_accessible_path target (proc S) = Inr s \<Longrightarrow>
    tstep E S (goes S t (Write_notify target data) s)"
| w_notify: "at_phase S t (Write_notify target data) \<Longrightarrow>
    notify_written E ip port target data (proc S) = Inr s \<Longrightarrow> tstep E S (goes S t Done s)"
| d_check: "at_phase S t (Delete_check p) \<Longrightarrow> delete_check p (Conn t) (proc S) = Inr (go, s) \<Longrightarrow>
    tstep E S (goes S t (if go then Delete_check2 p else Done) s)"
| d_check2: "at_phase S t (Delete_check2 p) \<Longrightarrow> delete_check2 p (Conn t) (proc S) = Inr (go, s) \<Longrightarrow>
    tstep E S (goes S t (if go then Delete_node p else Done) s)"
| d_node: "at_phase S t (Delete_node p) \<Longrightarrow>
    tstep E S (goes S t Done (delete_node E p (Conn t) (proc S)))"

inductive treach :: "host \<Rightarrow> ss \<Rightarrow> server \<Rightarrow> bool" for E :: host and s :: ss where
  start: "treach E s \<lparr>proc = s, threads = []\<rparr>"
| step: "treach E s S \<Longrightarrow> tstep E S S' \<Longrightarrow> treach E s S'"

section \<open>The pieces of a write\<close>

lemma at_phase_goes [simp]: "at_phase S t ph \<Longrightarrow> at_phase (goes S t ph' s) t ph'' \<longleftrightarrow> ph'' = ph'"
  by (auto simp: at_phase_def goes_def)

lemma goes_goes [simp]: "goes (goes S t ph s) t ph' s' = goes S t ph' s'"
  by (simp add: goes_def)

lemma proc_goes [simp]: "proc (goes S t ph s) = s"
  by (simp add: goes_def)

lemma chunk_steps:
  "at_phase S t (Write_chunks p target k data rest) \<Longrightarrow> write_chunks E k rest (proc S) = (ok, s) \<Longrightarrow>
     (tstep E)\<^sup>*\<^sup>* S (goes S t (if ok then Write_leave target data else Write_left p) s)"
proof (induction "length rest" arbitrary: rest S rule: less_induct)
  case less
  show ?case
  proof (cases "rest = []")
    case True
    with less.prems tstep.w_chunks_done [of S t p target k data E] show ?thesis
      by (auto simp: write_chunks.simps)
  next
    case False
    obtain n s1 where w: "c_fwrite E k (take CHUNK_SIZE rest) (proc S) = (n, s1)" by fastforce
    note one = tstep.w_chunk [OF less.prems(1) False w]
    show ?thesis
    proof (cases "n < length (take CHUNK_SIZE rest)")
      case True
      with less.prems(2) False w have "ok = False \<and> s = s1" by (subst (asm) write_chunks.simps) simp
      with one True show ?thesis by auto
    next
      case go: False
      let ?S1 = "goes S t (Write_chunks p target k data (drop CHUNK_SIZE rest)) s1"
      have "write_chunks E k (drop CHUNK_SIZE rest) (proc ?S1) = (ok, s)"
        using less.prems(2) False w go by (subst (asm) write_chunks.simps) (auto split: if_splits)
      then have "(tstep E)\<^sup>*\<^sup>* ?S1 (goes ?S1 t (if ok then Write_leave target data else Write_left p) s)"
        using less.prems(1) False by (intro less.hyps) simp_all
      moreover have "tstep E S ?S1" using one by (simp only: go if_False)
      ultimately show ?thesis by (simp add: converse_rtranclp_into_rtranclp)
    qed
  qed
qed

text \<open>A thread that nobody interrupts does what \<open>write_data\<close> does.\<close>

lemma thread_writes:
  assumes at: "at_phase S t (Write_data p)" and run: "write_data E p (Conn t) (proc S) = Inr (r, s)"
  shows "(tstep E)\<^sup>*\<^sup>* S (goes S t (case r of None \<Rightarrow> Write_left p | Some (target, data) \<Rightarrow> Write_leave target data) s)"
proof -
  from run obtain q s1 where o: "write_open E p (Conn t) (proc S) = Inr (q, s1)"
    by (auto simp: write_data_def andthen_eq_Inr)
  show ?thesis
  proof (cases q)
    case None
    with run o have "r = None" "s = s1" by (simp_all add: write_data_def)
    with tstep.w_open [OF at o] None show ?thesis by auto
  next
    case (Some x)
    then obtain sync target data k where q: "q = Some (sync, target, data, k)" by (cases x) auto
    let ?ph = "if \<not> sync then Write_chunks p target k data data else Write_sync p target k data"
    let ?S1 = "goes S t ?ph s1"
    have one: "tstep E S ?S1" using tstep.w_open [OF at o] q by simp
    obtain ok s2 where w: "(if \<not> sync then write_chunks E k data s1 else write_sync E (Conn t) k data s1) = (ok, s2)"
      by fastforce
    with run o q have r: "r = (if ok then Some (target, data) else None)" "s = s2"
      by (simp_all add: write_data_def)
    have "(tstep E)\<^sup>*\<^sup>* ?S1 (goes ?S1 t (if ok then Write_leave target data else Write_left p) s2)"
    proof (cases sync)
      case True
      with w at show ?thesis by (intro r_into_rtranclp tstep.w_sync [where p = p and target = target and k = k]) simp_all
    next
      case False
      with w at show ?thesis by (intro chunk_steps [where k = k and rest = data]) simp_all
    qed
    with one have "(tstep E)\<^sup>*\<^sup>* S (goes S t (if ok then Write_leave target data else Write_left p) s2)"
      by (simp add: converse_rtranclp_into_rtranclp)
    with r show ?thesis by (cases ok) simp_all
  qed
qed

section \<open>The table of readers is the readers\<close>

text \<open>The row a thread holds in the table of readers.\<close>

fun reader_row :: "phase \<Rightarrow> string list" where
  "reader_row (Read_send p) = [p]"
| "reader_row (Read_leave p) = [p]"
| "reader_row (Read_left p) = [p]"
| "reader_row _ = []"

fun reads_path :: "phase \<Rightarrow> string list" where
  "reads_path (Read_check p) = [p]"
| "reads_path (Read_enter p) = [p]"
| "reads_path ph = reader_row ph"

definition readers_tracked :: "server \<Rightarrow> bool" where
  "readers_tracked S \<longleftrightarrow> mset (files_being_read (proc S)) = mset (concat (map reader_row (threads S))) \<and>
     (\<forall>ph \<in> set (threads S). \<forall>p \<in> set (reads_path ph). path_fits p)"

lemma mset_concat_update:
  "i < length xs \<Longrightarrow>
     mset (concat (map f (xs[i := y]))) + mset (f (xs ! i)) = mset (concat (map f xs)) + mset (f y)"
proof (induction xs arbitrary: i)
  case (Cons x xs)
  then show ?case by (cases i) (auto simp: ac_simps)
qed simp

lemma length_reader_row: "length (reader_row ph) \<le> 1"
  by (cases ph) auto

lemma length_reader_rows: "length (concat (map reader_row ths)) \<le> length ths"
proof (induction ths)
  case (Cons ph ths)
  with length_reader_row [of ph] show ?case by simp
qed simp

lemma length_reader_rows_less:
  "i < length ths \<Longrightarrow> reader_row (ths ! i) = [] \<Longrightarrow> length (concat (map reader_row ths)) < length ths"
proof (induction ths arbitrary: i)
  case (Cons ph ths)
  show ?case
  proof (cases i)
    case 0
    with Cons.prems length_reader_rows [of ths] show ?thesis by simp
  next
    case (Suc k)
    with Cons.prems Cons.IH [of k] length_reader_row [of ph] show ?thesis by simp
  qed
qed simp

text \<open>A step of thread \<open>t\<close> that changes its row from \<open>reader_row old\<close> to \<open>reader_row new\<close>.\<close>

lemma tracked_step:
  assumes inv: "readers_tracked S" and at: "at_phase S t old"
    and rows: "mset (files_being_read s) + mset (reader_row old) = mset (files_being_read (proc S)) + mset (reader_row new)"
    and same: "set (reads_path new) \<subseteq> set (reads_path old)"
  shows "readers_tracked (goes S t new s)"
proof -
  from at have t: "t < length (threads S)" and old: "threads S ! t = old" by (simp_all add: at_phase_def)
  have "mset (files_being_read s) = mset (concat (map reader_row ((threads S)[t := new])))"
    using mset_concat_update [OF t, of reader_row new] rows inv old
    unfolding readers_tracked_def by (metis add_right_imp_eq)
  moreover have "\<forall>ph \<in> set ((threads S)[t := new]). \<forall>p \<in> set (reads_path ph). path_fits p"
  proof
    fix ph assume "ph \<in> set ((threads S)[t := new])"
    then have "ph = new \<or> ph \<in> set (threads S)" using set_update_subset_insert by fastforce
    moreover have "old \<in> set (threads S)" using t old by auto
    ultimately show "\<forall>p \<in> set (reads_path ph). path_fits p"
      using inv same by (auto simp: readers_tracked_def)
  qed
  ultimately show ?thesis by (simp add: readers_tracked_def goes_def)
qed

lemma tracked_other:
  assumes inv: "readers_tracked S" and at: "at_phase S t old" and s: "same_readers (proc S) s"
    and "reader_row old = []" and "reader_row new = []" and "reads_path new = []"
  shows "readers_tracked (goes S t new s)"
  by (rule tracked_step [OF inv at]) (use assms in \<open>simp_all add: same_readers_def\<close>)

lemma wlpD: "wlp Q m \<Longrightarrow> m = Inr x \<Longrightarrow> Q x"
  by simp

lemma tstep_tracked:
  assumes "tstep E S S'" and "readers_tracked S" and room: "length (threads S') \<le> MAX_PATHS"
  shows "readers_tracked S'"
  using assms
proof (induction rule: tstep.induct)
  case (spawn ph S)
  then show ?case by (cases ph) (auto simp: readers_tracked_def)
next
  case (r_check S t p go s)
  then have "files_being_read s = files_being_read (proc S)"
    by (auto simp: read_check_def andthen_eq_Inr send_text_def net_send_def emit_def split: if_splits)
  then show ?case by (intro tracked_step [OF r_check(3,1)]) auto
next
  case (r_enter S t p)
  then have fits: "path_fits p" by (force simp: readers_tracked_def at_phase_def dest: nth_mem)
  have "length (files_being_read (proc S)) = length (concat (map reader_row (threads S)))"
    using r_enter(2) by (metis readers_tracked_def mset_eq_length)
  moreover have "length (concat (map reader_row (threads S))) < length (threads S)"
    using r_enter(1) by (intro length_reader_rows_less [of t]) (simp_all add: at_phase_def)
  ultimately have "length (files_being_read (proc S)) < MAX_PATHS" using r_enter(3) by (simp add: goes_def)
  with fits have "add_accessible_path2 p (proc S) =
      (proc S)\<lparr>files_being_read := files_being_read (proc S) @ [p]\<rparr>" by (simp add: add_fits)
  then show ?case by (intro tracked_step [OF r_enter(2,1)]) auto
next
  case (r_send S t p ok s)
  then have "files_being_read s = files_being_read (proc S)" by (auto dest: read_send_rows)
  then show ?case by (intro tracked_step [OF r_send(3,1)]) auto
next
  case (r_leave S t p s)
  then have fits: "path_fits p" by (force simp: readers_tracked_def at_phase_def dest: nth_mem)
  from r_leave(1) have "Read_leave p \<in> set (threads S)" by (metis at_phase_def nth_mem)
  then have "p \<in> set (concat (map reader_row (threads S)))" by force
  then have "p \<in> set (files_being_read (proc S))" using r_leave(3)
    by (metis readers_tracked_def set_mset_mset)
  moreover from r_leave(2) have "files_being_read s = remove1 p (files_being_read (proc S))"
    by (auto simp: delete_accessible_path2_fits [OF fits])
  ultimately show ?case by (intro tracked_step [OF r_leave(3,1)]) auto
next
  case (w_check S t p go s)
  then have "same_readers (proc S) s"
    using readers.write_check_R [where p = p and c = "Conn t", OF readers.R_refl, of "proc S"] by simp
  then show ?case by (intro tracked_other [OF w_check(3,1)]) auto
next
  case (w_enter S t p)
  show ?case using readers.R_enter [where p = p, OF TrueI readers.R_refl, of "proc S"] by (intro tracked_other [OF w_enter(2,1)]) auto
next
  case (w_open S t p r s)
  then have "same_readers (proc S) s"
    using readers.write_open_R [where E = E and p = p and c = "Conn t", OF readers.R_refl, of "proc S"] by simp
  then show ?case by (intro tracked_other [OF w_open(3,1)]) (auto split: option.splits)
next
  case (w_chunk S t p target k data rest n s)
  then have "same_readers (proc S) s"
    using readers.R_fwrite [where E = E and k = k and d = "take CHUNK_SIZE rest", OF readers.R_refl, of "proc S"] by simp
  then show ?case by (intro tracked_other [OF w_chunk(4,1)]) auto
next
  case (w_chunks_done S t p target k data)
  show ?case by (intro tracked_other [OF w_chunks_done(2,1) readers.R_refl]) auto
next
  case (w_sync S t p target k data ok s)
  then have "same_readers (proc S) s"
    using readers.write_sync_R [where E = E and c = "Conn t" and k = k and bs = data, OF readers.R_refl, of "proc S"] by simp
  then show ?case by (intro tracked_other [OF w_sync(3,1)]) auto
next
  case (w_leave S t target data s)
  then have "same_readers (proc S) s"
    by (auto simp: same_readers_def delete_accessible_path_def andthen_eq_Inr split: option.splits)
  then show ?case by (intro tracked_other [OF w_leave(3,1)]) auto
next
  case (w_notify S t target data ip port s)
  then have "same_readers (proc S) s"
    using readers.notify_written_R [where E = E and ip = ip and port = port and p = target and data = data, OF readers.R_refl, of "proc S"] by simp
  then show ?case by (intro tracked_other [OF w_notify(3,1)]) auto
next
  case (d_check S t p go s)
  then have "same_readers (proc S) s"
    using readers.delete_check_R(1) [where p = p and c = "Conn t", OF readers.R_refl, of "proc S"] by simp
  then show ?case by (intro tracked_other [OF d_check(3,1)]) auto
next
  case (d_check2 S t p go s)
  then have "same_readers (proc S) s"
    using readers.delete_check_R(2) [where p = p and c = "Conn t", OF readers.R_refl, of "proc S"] by simp
  then show ?case by (intro tracked_other [OF d_check2(3,1)]) auto
next
  case (d_node S t p)
  show ?case
    using readers.delete_node_R [where E = E and p = p and c = "Conn t", OF readers.R_refl, of "proc S"] by (intro tracked_other [OF d_node(2,1)]) auto
qed

lemma tstep_threads: "tstep E S S' \<Longrightarrow> length (threads S) \<le> length (threads S')"
  by (induction rule: tstep.induct) (simp_all add: goes_def)

lemma treach_tracked:
  assumes "treach E s S" and "files_being_read s = []" and "length (threads S) \<le> MAX_PATHS"
  shows "readers_tracked S"
  using assms
proof (induction rule: treach.induct)
  case start
  then show ?case by (simp add: readers_tracked_def)
next
  case (step S S')
  with tstep_threads [OF step(2)] show ?case by (auto intro: tstep_tracked)
qed

section \<open>A run of a reader and a writer\<close>

text \<open>Both threads pass their checks before either registers.\<close>

lemma race_run:
  assumes fits: "path_fits p" and empty: "files_being_read s = []" "files_being_accessed s = []"
  shows "treach E s \<lparr>proc = add_accessible_path p (add_accessible_path2 p s), threads = [Read_send p, Write_data p]\<rparr>"
proof -
  let ?S0 = "\<lparr>proc = s, threads = []\<rparr>"
  define S1 where "S1 = \<lparr>proc = s, threads = [Read_check p]\<rparr>"
  define S2 where "S2 = \<lparr>proc = s, threads = [Read_check p, Write_check p]\<rparr>"
  define S3 where "S3 = \<lparr>proc = s, threads = [Read_enter p, Write_check p]\<rparr>"
  define S4 where "S4 = \<lparr>proc = s, threads = [Read_enter p, Write_enter p]\<rparr>"
  define S5 where "S5 = \<lparr>proc = add_accessible_path2 p s, threads = [Read_send p, Write_enter p]\<rparr>"
  define S6 where "S6 = \<lparr>proc = add_accessible_path p (add_accessible_path2 p s), threads = [Read_send p, Write_data p]\<rparr>"
  have "tstep E ?S0 S1" using tstep.spawn [of "Read_check p" E ?S0] fits by (simp add: S1_def)
  moreover have "tstep E S1 S2" using tstep.spawn [of "Write_check p" E S1] fits by (simp add: S1_def S2_def)
  moreover have "tstep E S2 S3"
    using tstep.r_check [of S2 0 p True s E] fits empty
    by (simp add: S2_def S3_def at_phase_def goes_def read_check_eq)
  moreover have "tstep E S3 S4"
    using tstep.w_check [of S3 1 p True s E] fits empty
    by (simp add: S3_def S4_def at_phase_def goes_def write_check_eq)
  moreover have "tstep E S4 S5"
    using tstep.r_enter [of S4 0 p E] by (simp add: S4_def S5_def at_phase_def goes_def)
  moreover have "tstep E S5 S6"
    using tstep.w_enter [of S5 1 p E] by (simp add: S5_def S6_def at_phase_def goes_def)
  ultimately have "treach E s S6" by (metis treach.start treach.step)
  then show ?thesis by (simp add: S6_def)
qed

section \<open>The table is exact\<close>

text \<open>
  C14: Under every interleaving, as long as no more than 4026 requests were started, the table of
  readers holds exactly one row for every thread that registered and has not taken its row out
  again: the two mutexes keep the table exact.
\<close>

lemma readers_exact:
  assumes "treach E s S" and "files_being_read s = []" and "length (threads S) \<le> MAX_PATHS"
  shows "mset (files_being_read (proc S)) = mset (concat (map reader_row (threads S)))"
  using treach_tracked [OF assms] by (simp add: readers_tracked_def)

lemma readers_exact_witness:
  "mset (files_being_read (proc \<lparr>proc = add_accessible_path ''d/f.c'' (add_accessible_path2 ''d/f.c'' sample_ss),
     threads = [Read_send ''d/f.c'', Write_data ''d/f.c'']\<rparr>)) = {#''d/f.c''#}"
proof -
  let ?S = "\<lparr>proc = add_accessible_path ''d/f.c'' (add_accessible_path2 ''d/f.c'' sample_ss),
     threads = [Read_send ''d/f.c'', Write_data ''d/f.c'']\<rparr> :: server"
  have run: "treach sample_host sample_ss ?S" by (rule race_run) (simp_all add: path_fits_def)
  from readers_exact [OF run] show ?thesis by simp
qed

section \<open>A registered reader is respected\<close>

lemma tracked_rows_ok:
  assumes "readers_tracked S"
  shows "rows_ok (files_being_read (proc S))"
proof -
  have sub: "set (reader_row ph) \<subseteq> set (reads_path ph)" for ph by (cases ph) auto
  have "set (files_being_read (proc S)) = set (concat (map reader_row (threads S)))"
    using assms by (metis readers_tracked_def set_mset_mset)
  with assms sub show ?thesis by (fastforce simp: rows_ok_def list_all_iff readers_tracked_def path_fits_def)
qed



section \<open>The checks do not exclude\<close>

text \<open>
  C20: The check and the registration are two critical sections: from any server with empty tables
  a run leads to a state in which one thread is sending a file and another one is writing it.
\<close>

lemma read_write_race:
  assumes fits: "path_fits p" and empty: "files_being_read s = []" "files_being_accessed s = []"
  shows "\<exists>S. treach E s S \<and> threads S = [Read_send p, Write_data p] \<and>
    p \<in> set (files_being_read (proc S)) \<and> p \<in> set (files_being_accessed (proc S))"
  using race_run [OF assms, of E] fits empty by (intro exI conjI) (assumption, simp_all add: add_fits)

lemma read_write_race_witness:
  "\<exists>S. treach sample_host sample_ss S \<and> threads S = [Read_send ''d/f.c'', Write_data ''d/f.c'']"
  using read_write_race [of "''d/f.c''" sample_ss sample_host] by (auto simp: path_fits_def)

end
