(* ===== verification/Client.thy ===== *)
theory Client
  imports World
begin

text \<open>
  The client program, \<open>clients/client.c\<close>: a line typed by the user becomes a request to the
  naming server, whose answer says which storage server to ask.

  A function returns \<^term>\<open>None\<close>, or \<^term>\<open>Some code\<close> when the process exits with a code.
  \<open>screen\<close> is what the user is shown of messages received and of errors; prompts and traces of
  the program's own doings are left out. \<open>played\<close> is what went to the audio player.
\<close>

section \<open>State\<close>

record console = env +
  c_read_info :: "event list \<Rightarrow> chan \<Rightarrow> payload option"
  c_junk_info :: FILEINFO
  c_overlay :: "string \<Rightarrow> FILEINFO"
  c_stdin :: "event list \<Rightarrow> string option"
  c_popen :: "event list \<Rightarrow> bool"

record cl = world +
  screen :: "string list"
  played :: string
  command_line :: string

abbreviation EXIT_FAILURE :: int where "EXIT_FAILURE \<equiv> 1"
abbreviation INFO_RETRIEVAL_FAILED :: int where "INFO_RETRIEVAL_FAILED \<equiv> 606"

type_synonym outcome = "(int option \<times> cl) result"

definition show_text :: "string \<Rightarrow> cl \<Rightarrow> cl" where
  "show_text t s = s\<lparr>screen := screen s @ [t]\<rparr>"

definition returns :: "cl \<Rightarrow> outcome" where
  "returns s = Inr (None, s)"

definition exits :: "int \<Rightarrow> cl \<Rightarrow> outcome" where
  "exits code s = Inr (Some code, s)"

text \<open>
  \<open>read(sock, &file_info, sizeof(file_info))\<close>: whether something came, and the record. A short
  text in place of a record overwrites the first bytes of it, the address; the rest is what the
  stack held.
\<close>

definition read_info :: "console \<Rightarrow> chan \<Rightarrow> cl \<Rightarrow> (bool \<times> FILEINFO) \<times> cl" where
  "read_info E c s =
     (let junk = c_junk_info E; s' = emit (Received c ''FILEINFO'') s in
      case c_read_info E (trace s) c of
        None \<Rightarrow> ((False, junk), s')
      | Some (InfoMsg fi) \<Rightarrow> ((True, fi), s')
      | Some (Text t) \<Rightarrow>
          ((True, if length t \<le> INET_ADDRSTRLEN
                  then junk\<lparr>fi_ip := t @ drop (length t) (fi_ip junk)\<rparr> else c_overlay E t), s')
      | Some _ \<Rightarrow> ((True, junk), s'))"

definition info_line :: "FILEINFO \<Rightarrow> string" where
  "info_line fi = ''path:'' @ fi_file_path fi @ nl @ ''ip:'' @ fi_ip fi @ nl @ ''port:'' @ dec (fi_port_client fi)"

text \<open>\<open>n = recv(c, response, sizeof(response)); if (n > 0) { response[n] = 0; printf }\<close>\<close>

definition show_response :: "console \<Rightarrow> chan \<Rightarrow> cl \<Rightarrow> cl result" where
  "show_response E c s =
     (case net_recv E c BUFFER_SIZE s of
        (None, s) \<Rightarrow> Inr s
      | (Some bs, s) \<Rightarrow>
          if bs = [] then Inr s
          else andthen (terminate BUFFER_SIZE bs) (\<lambda>t. Inr (show_text t s)))"

section \<open>Loops\<close>

text \<open>
  The loops that receive until the peer closes, with fuel for the messages: \<^term>\<open>None\<close> is a run
  that has not ended.
\<close>

fun print_all :: "nat \<Rightarrow> console \<Rightarrow> chan \<Rightarrow> cl \<Rightarrow> cl result option" where
  "print_all 0 E c s = None"
| "print_all (Suc n) E c s =
     (case net_recv E c BUFFER_SIZE s of
        (None, s) \<Rightarrow> Some (Inr s)
      | (Some bs, s) \<Rightarrow>
          if bs = [] then Some (Inr s)
          else
            (case terminate BUFFER_SIZE bs of
               Inl e \<Rightarrow> Some (Inl e)
             | Inr t \<Rightarrow> print_all n E c (show_text t s)))"

fun play_all :: "nat \<Rightarrow> console \<Rightarrow> chan \<Rightarrow> cl \<Rightarrow> cl option" where
  "play_all 0 E c s = None"
| "play_all (Suc n) E c s =
     (case net_recv E c BUFFER_SIZE s of
        (None, s) \<Rightarrow> Some s
      | (Some bs, s) \<Rightarrow> if bs = [] then Some s else play_all n E c (s\<lparr>played := played s @ bs\<rparr>))"

text \<open>The answers to \<open>list\<close>, up to one that contains STOP.\<close>

fun print_list :: "nat \<Rightarrow> console \<Rightarrow> chan \<Rightarrow> cl \<Rightarrow> cl result option" where
  "print_list 0 E c s = None"
| "print_list (Suc n) E c s =
     (case net_recv E c BUFFER_SIZE s of
        (None, s) \<Rightarrow> Some (Inr s)
      | (Some bs, s) \<Rightarrow>
          if bs = [] then Some (Inr s)
          else
            (case terminate BUFFER_SIZE bs of
               Inl e \<Rightarrow> Some (Inl e)
             | Inr t \<Rightarrow>
                 if strstr ''STOP'' t \<noteq> None then Some (Inr s)
                 else print_list n E c (show_text t s)))"

section \<open>Requests\<close>

definition connect_to_server :: "console \<Rightarrow> string \<Rightarrow> int \<Rightarrow> cl \<Rightarrow> (int option \<times> nat) \<times> cl" where
  "connect_to_server E ip port s =
     (case dial E ip port s of
        (Dialled k, s) \<Rightarrow> ((None, k), s)
      | (_, s) \<Rightarrow> ((Some EXIT_FAILURE, 0), s))"

definition client_read_file :: "nat \<Rightarrow> console \<Rightarrow> nat \<Rightarrow> string \<Rightarrow> cl \<Rightarrow> outcome option" where
  "client_read_file fuel E sock file_path s =
     (let s = send_text (Peer sock) (snprintf BUFFER_SIZE (''READ '' @ file_path)) s in
      case read_info E (Peer sock) s of
        ((_, file_info), s) \<Rightarrow>
          if fi_port_client file_info = 0 then
            Some (returns (show_text (''Error: File not found'' @ nl) s))
          else
            let s = show_text (info_line file_info) s in
            (case dial E (fi_ip file_info) (fi_port_client file_info) s of
               (Dialled ss_sock, s) \<Rightarrow>
                 (case arr_get MAX_FILE_PATH_SIZE (fi_file_path file_info) of
                    Inl e \<Rightarrow> Some (Inl e)
                  | Inr path \<Rightarrow>
                      map_option (\<lambda>r. andthen r (\<lambda>s. returns (net_close (Peer ss_sock) s)))
                        (print_all fuel E (Peer ss_sock)
                          (send_text (Peer ss_sock) (snprintf BUFFER_SIZE (''READ '' @ path)) s)))
             | (_, s) \<Rightarrow> Some (exits EXIT_FAILURE s)))"

text \<open>\<open>recv(sock, msg, strlen(msg) - 1, 0); msg[z] = 0\<close> into \<open>msg[1024]\<close>, never initialised.\<close>

definition client_copy_file :: "console \<Rightarrow> nat \<Rightarrow> string \<Rightarrow> string \<Rightarrow> cl \<Rightarrow> outcome" where
  "client_copy_file E sock source_path dest_path s =
     (let s = send_text (Peer sock) (snprintf BUFFER_SIZE (''COPY '' @ source_path @ '' '' @ dest_path)) s in
      andthen (arr_get 1024 (e_junk E ''msg'')) (\<lambda>old.
        case net_recv E (Peer sock) (unat (of_nat (length old) - 1 :: 64 word)) s of
          (None, s) \<Rightarrow> Inl Overflow
        | (Some bs, s) \<Rightarrow> andthen (terminate 1024 bs) (\<lambda>msg. returns (show_text msg s))))"

text \<open>The data a user types: at most one array, up to the end of the line.\<close>

definition typed :: "nat \<Rightarrow> string \<Rightarrow> string" where
  "typed n line = takeWhile (\<lambda>c. c \<noteq> CHR 0x0A) (take (n - 1) line)"

definition client_write_file :: "console \<Rightarrow> nat \<Rightarrow> string \<Rightarrow> cl \<Rightarrow> outcome" where
  "client_write_file E sock file_path s =
     (let s = send_text (Peer sock) (snprintf BUFFER_SIZE file_path) s in
      case read_info E (Peer sock) s of
        ((came, file_info), s) \<Rightarrow>
          if \<not> came then returns (show_text (''Error retrieving file info'' @ nl) s)
          else if fi_port_client file_info = 0 then returns (show_text (''Error: File not found'' @ nl) s)
          else
            let s = show_text (info_line file_info) s; sync = strstr '' --sync'' file_path \<noteq> None in
            (case dial E (fi_ip file_info) (fi_port_client file_info) s of
               (Dialled ss_sock, s) \<Rightarrow>
                 andthen (arr_get MAX_FILE_PATH_SIZE (fi_file_path file_info)) (\<lambda>path.
                 let s = send_text (Peer ss_sock) (snprintf BUFFER_SIZE
                       (''WRITE '' @ path @ (if sync then '' --sync'' else ''''))) s in
                 andthen (case c_stdin E (trace s) of
                            None \<Rightarrow> arr_get 4096 (e_junk E ''data'')
                          | Some line \<Rightarrow> Inr (typed 4096 line)) (\<lambda>input.
                 andthen (show_response E (Peer ss_sock) (send_text (Peer ss_sock) input s)) (\<lambda>s.
                 andthen (if sync then Inr s else show_response E (Peer sock) s) (\<lambda>s.
                 returns (net_close (Peer ss_sock) s)))))
             | (_, s) \<Rightarrow> exits EXIT_FAILURE s))"

definition client_get_file_info :: "console \<Rightarrow> nat \<Rightarrow> string \<Rightarrow> cl \<Rightarrow> outcome" where
  "client_get_file_info E sock file_path s =
     (let request = snprintf BUFFER_SIZE (''INFO '' @ file_path); s = send_text (Peer sock) request s in
      case read_info E (Peer sock) s of
        ((came, file_info), s) \<Rightarrow>
          if \<not> came then exits INFO_RETRIEVAL_FAILED s
          else if fi_port_client file_info = 0 then returns (show_text (''Error: File not found'' @ nl) s)
          else
            let s = show_text (info_line file_info) s in
            (case dial E (fi_ip file_info) (fi_port_client file_info) s of
               (Dialled ss_sock, s) \<Rightarrow>
                 andthen (show_response E (Peer ss_sock) (send_text (Peer ss_sock) request s)) (\<lambda>s.
                 andthen (if strstr '' --sync'' file_path \<noteq> None then show_response E (Peer sock) s else Inr s) (\<lambda>s.
                 returns (net_close (Peer ss_sock) s)))
             | (_, s) \<Rightarrow> exits EXIT_FAILURE s))"

definition client_stream_audio_file :: "nat \<Rightarrow> console \<Rightarrow> nat \<Rightarrow> string \<Rightarrow> cl \<Rightarrow> outcome option" where
  "client_stream_audio_file fuel E sock file_path s =
     (let s = send_text (Peer sock) (snprintf BUFFER_SIZE (''STREAM '' @ file_path)) s in
      case read_info E (Peer sock) s of
        ((came, file_info), s) \<Rightarrow>
          if \<not> came then Some (returns (show_text (''Error retrieving file info'' @ nl) s))
          else if fi_port_client file_info = 0 then
            Some (returns (show_text (''File not found to receive file info from naming server'' @ nl) s))
          else
            let s = show_text (info_line file_info) s in
            (case dial E (fi_ip file_info) (fi_port_client file_info) s of
               (Dialled ss_sock, s) \<Rightarrow>
                 (case arr_get MAX_FILE_PATH_SIZE (fi_file_path file_info) of
                    Inl e \<Rightarrow> Some (Inl e)
                  | Inr path \<Rightarrow>
                      let s = send_text (Peer ss_sock) (snprintf BUFFER_SIZE (''STREAM '' @ path)) s in
                      if \<not> c_popen E (trace s) then Some (returns (net_close (Peer ss_sock) s))
                      else
                        map_option (\<lambda>s. returns (net_close (Peer ss_sock) s))
                          (play_all fuel E (Peer ss_sock) s))
             | (_, s) \<Rightarrow> Some (returns s)))"

text \<open>Behind a failed \<open>recv\<close> the terminator is written in front of the array.\<close>

definition client_create_file :: "console \<Rightarrow> nat \<Rightarrow> string \<Rightarrow> string \<Rightarrow> cl \<Rightarrow> outcome" where
  "client_create_file E sock file_path file_name s =
     (let s = send_text (Peer sock) (snprintf BUFFER_SIZE (''CREATE '' @ file_path @ '' '' @ file_name)) s in
      case net_recv E (Peer sock) BUFFER_SIZE s of
        (None, s) \<Rightarrow> Inl Overflow
      | (Some bs, s) \<Rightarrow>
          let s = (if bs = [] then show_text (''Error creating file'' @ nl) s else s) in
          andthen (terminate BUFFER_SIZE bs) (\<lambda>t. returns (show_text t s)))"

definition delete_file :: "console \<Rightarrow> nat \<Rightarrow> string \<Rightarrow> cl \<Rightarrow> outcome" where
  "delete_file E sock file_path s =
     (let s = send_text (Peer sock) (snprintf BUFFER_SIZE (''DELETE '' @ file_path)) s in
      case net_recv E (Peer sock) BUFFER_SIZE s of
        (None, s) \<Rightarrow> returns (show_text (''Error deleting file'' @ nl) s)
      | (Some bs, s) \<Rightarrow>
          if bs = [] then returns (show_text (''Error deleting file'' @ nl) s)
          else andthen (terminate BUFFER_SIZE bs) (\<lambda>t. returns (show_text t s)))"

definition client_list_files :: "nat \<Rightarrow> string \<Rightarrow> cl \<Rightarrow> cl" where
  "client_list_files sock dir_path s = send_text (Peer sock) (snprintf BUFFER_SIZE (''LIST '' @ dir_path)) s"

definition list_command :: "nat \<Rightarrow> console \<Rightarrow> nat \<Rightarrow> string \<Rightarrow> cl \<Rightarrow> outcome option" where
  "list_command fuel E sock file_path s =
     map_option (\<lambda>r. andthen r returns)
       (print_list fuel E (Peer sock)
         (send_text (Peer sock) (snprintf BUFFER_SIZE (''list '' @ file_path)) s))"

section \<open>The command line\<close>

definition print_usage :: "cl \<Rightarrow> cl" where
  "print_usage s = show_text (''Usage'' @ nl) s"

text \<open>
  One command: its first letters choose the function, its words are counted. The tokenizer cuts the
  line behind its first word.
\<close>

definition run_command :: "nat \<Rightarrow> console \<Rightarrow> nat \<Rightarrow> string \<Rightarrow> cl \<Rightarrow> outcome option" where
  "run_command fuel E sock command s =
     (let args = strtok_all (CHR '' '') command; i = length args;
          cut = s\<lparr>command_line := snd (strtok_first (CHR '' '') command)\<rparr>;
          usage = Some (returns (print_usage cut))
      in if strncmp_eq 4 command ''read'' then
           (if i \<noteq> 2 then usage else client_read_file fuel E sock (args ! 1) cut)
         else if strncmp_eq 5 command ''write'' then
           (if i \<noteq> 2 \<and> i = 3 \<and> \<not> strncmp_eq 6 (args ! 2) ''--sync'' then usage
            else Some (client_write_file E sock command cut))
         else if strncmp_eq 6 command ''stream'' then
           (if i \<noteq> 2 then usage else client_stream_audio_file fuel E sock (args ! 1) cut)
         else if strncmp_eq 6 command ''create'' then
           (if i \<noteq> 3 then usage else Some (client_create_file E sock (args ! 1) (args ! 2) cut))
         else if strncmp_eq 4 command ''copy'' then
           (if i \<noteq> 3 then usage else Some (client_copy_file E sock (args ! 1) (args ! 2) cut))
         else if strncmp_eq 4 command ''info'' then
           (if i \<noteq> 2 then usage else Some (client_get_file_info E sock (args ! 1) cut))
         else if strncmp_eq 6 command ''delete'' then
           (if i \<noteq> 2 then usage else Some (delete_file E sock (args ! 1) cut))
         else if strncmp_eq 4 command ''list'' then
           (if i \<noteq> 2 then usage else list_command fuel E sock (args ! 1) cut)
         else Some (returns (print_usage (s\<lparr>command_line := command\<rparr>))))"

text \<open>
  One round of the endless loop of \<open>main\<close>: at the end of the input the line of the round before
  is taken again.
\<close>

definition client_round :: "nat \<Rightarrow> console \<Rightarrow> nat \<Rightarrow> cl \<Rightarrow> outcome option" where
  "client_round fuel E sock s =
     run_command fuel E sock
       (case c_stdin E (trace s) of None \<Rightarrow> command_line s | Some line \<Rightarrow> typed BUFFER_SIZE line) s"

definition start_client :: "console \<Rightarrow> string list \<Rightarrow> cl \<Rightarrow> (int option \<times> nat) \<times> cl" where
  "start_client E argv s =
     (if length argv < 3 then ((Some EXIT_FAILURE, 0), print_usage s)
      else connect_to_server E (argv ! 1) (atoi (argv ! 2)) s)"

section \<open>What a command asks first\<close>

text \<open>The trace of a run only grows; a relation the walk below keeps.\<close>

definition extends :: "cl \<Rightarrow> cl \<Rightarrow> bool" where
  "extends s s' \<longleftrightarrow> prefix (trace s) (trace s')"

text \<open>Every outcome of a run that ends satisfies \<open>Q\<close>.\<close>

definition ends :: "('a \<Rightarrow> bool) \<Rightarrow> 'a result option \<Rightarrow> bool" where
  "ends Q m = (case m of None \<Rightarrow> True | Some r \<Rightarrow> wlp Q r)"

lemma ends_simps [simp]: "ends Q None" "ends Q (Some r) \<longleftrightarrow> wlp Q r"
  by (simp_all add: ends_def)

lemma ends_map: "ends Q (map_option f m) \<longleftrightarrow> (\<forall>r. m = Some r \<longrightarrow> wlp Q (f r))"
  by (cases m) auto

interpretation growth: state_relation extends
  by unfold_locales (simp_all add: extends_def)

lemma extends_io:
  "extends s t \<Longrightarrow> extends s (emit ev t)" "extends s t \<Longrightarrow> extends s (send_text c m t)"
  "extends s t \<Longrightarrow> extends s (net_close c t)" "extends s t \<Longrightarrow> extends s (show_text m t)"
  "extends s t \<Longrightarrow> extends s (t\<lparr>played := x\<rparr>)"
  by (auto simp: extends_def show_text_def prefix_def)

lemma extends_calls:
  "extends s t \<Longrightarrow> extends s (snd (net_recv E c n t))" "extends s t \<Longrightarrow> extends s (snd (dial E ip port t))"
  "extends s t \<Longrightarrow> extends s (snd (read_info E' c t))"
  by (auto simp: net_recv_def dial_def read_info_def Let_def intro: extends_io split: option.splits payload.splits)

lemma show_response_extends: "extends s t \<Longrightarrow> wlp (extends s) (show_response E c t)"
  unfolding show_response_def
  by (assumption | simp only: prod.case | rule extends_io extends_calls growth.walk_through wlp_bind_any)+

lemma print_all_extends: "extends s t \<Longrightarrow> ends (extends s) (print_all n E c t)"
proof (induction n arbitrary: t)
  case (Suc n)
  have "extends s (snd (net_recv E c BUFFER_SIZE t))" by (rule extends_calls [OF Suc.prems])
  then show ?case
    by (auto simp: Suc.IH extends_io split: prod.splits option.splits sum.splits)
qed simp

lemma print_list_extends: "extends s t \<Longrightarrow> ends (extends s) (print_list n E c t)"
proof (induction n arbitrary: t)
  case (Suc n)
  have "extends s (snd (net_recv E c BUFFER_SIZE t))" by (rule extends_calls [OF Suc.prems])
  then show ?case
    by (auto simp: Suc.IH extends_io split: prod.splits option.splits sum.splits)
qed simp

lemma play_all_extends: "extends s t \<Longrightarrow> play_all n E c t = Some t' \<Longrightarrow> extends s t'"
proof (induction n arbitrary: t)
  case (Suc n)
  have "extends s (snd (net_recv E c BUFFER_SIZE t))" by (rule extends_calls [OF Suc.prems(1)])
  with Suc show ?case
    by (auto intro: extends_io split: prod.splits option.splits if_splits)
qed simp

text \<open>A request was the first thing sent.\<close>

definition asked :: "nat \<Rightarrow> string \<Rightarrow> cl \<Rightarrow> (int option \<times> cl) \<Rightarrow> bool" where
  "asked sock m s r \<longleftrightarrow> prefix (trace s @ [Sent (Peer sock) (Text m)]) (trace (snd r))"

lemma asked_from: "extends (send_text (Peer sock) m s) t \<Longrightarrow> asked sock m s (code, t)"
  by (simp add: asked_def extends_def)

lemma asked_wlp:
  "wlp (\<lambda>(r, t). extends (send_text (Peer sock) m s) t) out \<Longrightarrow> wlp (asked sock m s) out"
  by (erule wlp_mono) (auto simp: asked_from)

lemma ends_mono: "ends P m \<Longrightarrow> (\<And>x. P x \<Longrightarrow> Q x) \<Longrightarrow> ends Q m"
  by (cases m) (auto elim: wlp_mono)

lemmas client_walk = extends_io extends_calls growth.walk_through growth.R_refl

lemma client_write_asks: "wlp (asked sock (snprintf BUFFER_SIZE p) s) (client_write_file E sock p s)"
  unfolding client_write_file_def Let_def returns_def exits_def
  by (rule asked_wlp)
    (assumption | simp only: prod.case | rule client_walk growth.wlp_state_bind [OF show_response_extends]
      wlp_bind_any wlp_prod wlp_if_bind wlp_Inr_bind)+

lemma client_get_file_info_asks:
  "wlp (asked sock (snprintf BUFFER_SIZE (''INFO '' @ p)) s) (client_get_file_info E sock p s)"
  unfolding client_get_file_info_def Let_def returns_def exits_def
  by (rule asked_wlp)
    (assumption | simp only: prod.case | rule client_walk growth.wlp_state_bind [OF show_response_extends]
      wlp_prod wlp_if_bind wlp_Inr_bind)+

lemma client_create_file_asks:
  "wlp (asked sock (snprintf BUFFER_SIZE (''CREATE '' @ d @ '' '' @ f)) s) (client_create_file E sock d f s)"
  unfolding client_create_file_def Let_def returns_def
  by (rule asked_wlp) (assumption | simp only: prod.case | rule client_walk wlp_bind_any)+

lemma delete_file_asks:
  "wlp (asked sock (snprintf BUFFER_SIZE (''DELETE '' @ p)) s) (delete_file E sock p s)"
  unfolding delete_file_def Let_def returns_def
  by (rule asked_wlp) (assumption | simp only: prod.case | rule client_walk wlp_bind_any)+

lemma client_copy_file_asks:
  "wlp (asked sock (snprintf BUFFER_SIZE (''COPY '' @ p @ '' '' @ q)) s) (client_copy_file E sock p q s)"
  unfolding client_copy_file_def Let_def returns_def
  by (rule asked_wlp) (assumption | simp only: prod.case | rule client_walk wlp_bind_any)+

lemma ends_call:
  assumes "extends s (snd f)" and "\<And>r t'. extends s t' \<Longrightarrow> ends (\<lambda>(r, u). extends s u) (g r t')"
  shows "ends (\<lambda>(r, u). extends s u) (case f of (r, t') \<Rightarrow> g r t')"
  using assms by (cases f) auto

lemma ends_info_call:
  assumes "extends s (snd f)" and "\<And>a b t'. extends s t' \<Longrightarrow> ends (\<lambda>(r, u). extends s u) (g a b t')"
  shows "ends (\<lambda>(r, u). extends s u) (case f of ((a, b), t') \<Rightarrow> g a b t')"
  using assms by (cases f) auto

lemma ends_if: "ends Q m \<Longrightarrow> ends Q n \<Longrightarrow> ends Q (if b then m else n)"
  by simp

lemma ends_dialled:
  "ends Q a \<Longrightarrow> ends Q b \<Longrightarrow> ends Q c \<Longrightarrow> (\<And>k. ends Q (f k)) \<Longrightarrow>
     ends Q (case d of No_socket \<Rightarrow> a | Bad_address \<Rightarrow> b | Refused \<Rightarrow> c | Dialled k \<Rightarrow> f k)"
  by (cases d) auto

lemma ends_sum: "(\<And>x. ends Q (f x)) \<Longrightarrow> ends Q (case m of Inl e \<Rightarrow> Some (Inl e) | Inr x \<Rightarrow> f x)"
  by (cases m) auto

lemma ends_done: "extends s t \<Longrightarrow> ends (\<lambda>(r, u). extends s u) (Some (Inr (r, t)))"
  by simp

lemma ends_close:
  "ends (extends s) m \<Longrightarrow> ends (\<lambda>(r, u). extends s u) (map_option (\<lambda>r. andthen r (\<lambda>t. Inr (None, net_close c t))) m)"
  by (cases m) (auto elim!: wlp_mono simp: extends_io)

lemma ends_play:
  "extends s t \<Longrightarrow> ends (\<lambda>(r, u). extends s u) (map_option (\<lambda>t. Inr (None, net_close c t)) (play_all n E d t))"
  using play_all_extends [of s t n E d] by (cases "play_all n E d t") (auto simp: extends_io)

lemma asked_ends:
  "ends (\<lambda>(r, t). extends (send_text (Peer sock) m s) t) out \<Longrightarrow> ends (asked sock m s) out"
  by (erule ends_mono) (auto simp: asked_from)

lemmas ends_walk = ends_info_call ends_call ends_if ends_dialled ends_sum ends_done ends_close ends_play
  print_all_extends print_list_extends client_walk

lemma client_read_file_asks:
  "ends (asked sock (snprintf BUFFER_SIZE (''READ '' @ p)) s) (client_read_file fuel E sock p s)"
  unfolding client_read_file_def Let_def returns_def exits_def
  by (rule asked_ends) (assumption | rule ends_walk)+

lemma client_stream_asks:
  "ends (asked sock (snprintf BUFFER_SIZE (''STREAM '' @ p)) s) (client_stream_audio_file fuel E sock p s)"
  unfolding client_stream_audio_file_def Let_def returns_def exits_def
  by (rule asked_ends) (assumption | rule ends_walk)+

lemma list_command_asks:
  "ends (asked sock (snprintf BUFFER_SIZE (''list '' @ p)) s) (list_command fuel E sock p s)"
proof -
  have "ends (extends (send_text (Peer sock) (snprintf BUFFER_SIZE (''list '' @ p)) s))
      (print_list fuel E (Peer sock) (send_text (Peer sock) (snprintf BUFFER_SIZE (''list '' @ p)) s))"
    by (rule print_list_extends [OF growth.R_refl])
  then show ?thesis
    unfolding list_command_def returns_def
    by (cases "print_list fuel E (Peer sock) (send_text (Peer sock) (snprintf BUFFER_SIZE (''list '' @ p)) s)")
      (auto elim!: wlp_mono simp: asked_from)
qed

section \<open>Commands complete\<close>

text \<open>The run ends within its fuel, without a fault, and its result satisfies \<open>Q\<close>.\<close>

definition completes :: "('a \<Rightarrow> bool) \<Rightarrow> 'a result option \<Rightarrow> bool" where
  "completes Q m = (case m of None \<Rightarrow> False | Some r \<Rightarrow> wp Q r)"

lemma completes_simps [simp]: "\<not> completes Q None" "completes Q (Some r) \<longleftrightarrow> wp Q r"
  by (simp_all add: completes_def)

lemma completes_ends: "completes (\<lambda>_. True) m \<Longrightarrow> ends Q m \<Longrightarrow> completes Q m"
  by (cases m) (auto simp: wp_iff)

text \<open>
  A console the client can live with: every peer sends fewer than \<open>n\<close> messages, none of which
  fills the buffer, and closes; every record and every array that was never written to is
  terminated.
\<close>

definition responsive :: "console \<Rightarrow> nat \<Rightarrow> bool" where
  "responsive E n \<longleftrightarrow>
     (\<forall>c. \<exists>ms. script E c ms \<and> length ms < n \<and> list_all (\<lambda>m. length m < BUFFER_SIZE) ms) \<and>
     (\<forall>tr c fi. c_read_info E tr c = Some (InfoMsg fi) \<longrightarrow> length (fi_file_path fi) < MAX_FILE_PATH_SIZE) \<and>
     length (fi_file_path (c_junk_info E)) < MAX_FILE_PATH_SIZE \<and>
     (\<forall>t. length (fi_file_path (c_overlay E t)) < MAX_FILE_PATH_SIZE) \<and>
     e_junk E ''msg'' \<noteq> [] \<and> length (e_junk E ''msg'') < 1024 \<and> length (e_junk E ''data'') < 4096"

lemma responsive_recv:
  assumes "responsive E n"
  obtains m where "net_recv E c k s = (Some m, emit (Received c m) s)" and "length m < BUFFER_SIZE" and "length m \<le> k"
proof -
  obtain ms where ms: "script E c ms" "list_all (\<lambda>m. length m < BUFFER_SIZE) ms"
    using assms unfolding responsive_def by blast
  let ?m = "take k (if received c (trace s) < length ms then ms ! received c (trace s) else [])"
  show thesis
  proof (rule that)
    show "net_recv E c k s = (Some ?m, emit (Received c ?m) s)" by (simp add: script_recv [OF ms(1)] Let_def)
    show "length ?m < BUFFER_SIZE" "length ?m \<le> k" using ms(2) by (auto simp: list_all_length min_less_iff_disj)
  qed
qed

lemma responsive_info:
  assumes "responsive E n" and "read_info E c s = ((came, fi), s')"
  shows "length (fi_file_path fi) < MAX_FILE_PATH_SIZE"
  using assms by (auto simp: responsive_def read_info_def Let_def split: option.splits payload.splits)

text \<open>The loops end with the last message at the latest.\<close>

lemma loop_ends:
  assumes peer: "responsive E n"
    and stop: "\<And>k s s'. net_recv E c BUFFER_SIZE s = (Some '''', s') \<Longrightarrow> completes (\<lambda>_. True) (loop (Suc k) s)"
    and go: "\<And>k m s s'. net_recv E c BUFFER_SIZE s = (Some m, s') \<Longrightarrow> length m < BUFFER_SIZE \<Longrightarrow>
      (\<And>t. trace t = trace s' \<Longrightarrow> completes (\<lambda>_. True) (loop k t)) \<Longrightarrow> completes (\<lambda>_. True) (loop (Suc k) s)"
  shows "completes (\<lambda>_. True) (loop n s)"
proof -
  obtain ms where ms: "script E c ms" "length ms < n" "list_all (\<lambda>m. length m < BUFFER_SIZE) ms"
    using peer unfolding responsive_def by blast
  have "completes (\<lambda>_. True) (loop k s)" if "length ms - received c (trace s) < k" for k s
    using that
  proof (induction k arbitrary: s)
    case (Suc k)
    show ?case
    proof (cases "received c (trace s) < length ms")
      case True
      with ms(3) have short: "length (ms ! received c (trace s)) < BUFFER_SIZE" by (simp add: list_all_length)
      with True have recv: "net_recv E c BUFFER_SIZE s = (Some (ms ! received c (trace s)),
          emit (Received c (ms ! received c (trace s))) s)"
        by (simp add: script_recv [OF ms(1)] Let_def)
      show ?thesis
        by (rule go [OF recv short], rule Suc.IH) (use True Suc.prems in simp)
    next
      case False
      then show ?thesis by (intro stop) (simp add: script_recv [OF ms(1)] Let_def)
    qed
  qed simp
  then show ?thesis using ms(2) by simp
qed

lemma print_all_ends: "responsive E n \<Longrightarrow> completes (\<lambda>_. True) (print_all n E c s)"
  by (rule loop_ends [where c = c]) (auto simp: show_text_def)

lemma print_list_ends: "responsive E n \<Longrightarrow> completes (\<lambda>_. True) (print_list n E c s)"
  by (rule loop_ends [where c = c]) (auto simp: show_text_def)

lemma play_all_ends:
  assumes "responsive E n" shows "play_all n E c s \<noteq> None"
proof -
  have "completes (\<lambda>_. True) (map_option Inr (play_all n E c s))"
    by (rule loop_ends [where c = c and loop = "\<lambda>n s. map_option Inr (play_all n E c s)", OF assms]) auto
  then show ?thesis by (cases "play_all n E c s") auto
qed

lemma show_response_ends:
  assumes "responsive E n" shows "wp (\<lambda>_. True) (show_response E c s)"
  by (rule responsive_recv [OF assms, of c BUFFER_SIZE s]) (simp add: show_response_def)

lemma wp_then: "wp (\<lambda>_. True) m \<Longrightarrow> (\<And>x. wp Q (f x)) \<Longrightarrow> wp Q (andthen m f)"
  by (cases m) auto

lemma wp_info:
  assumes "responsive E n"
    and "\<And>came fi t. length (fi_file_path fi) < MAX_FILE_PATH_SIZE \<Longrightarrow> wp Q (f came fi t)"
  shows "wp Q (case read_info E c s of ((came, fi), t) \<Rightarrow> f came fi t)"
proof -
  obtain came fi t where "read_info E c s = ((came, fi), t)" by (metis surj_pair)
  with assms responsive_info [OF assms(1) this] show ?thesis by simp
qed

lemma wp_recv:
  assumes "responsive E n" and "\<And>m t. length m < BUFFER_SIZE \<Longrightarrow> length m \<le> k \<Longrightarrow> wp Q (f m t)"
  shows "wp Q (case net_recv E c k s of (None, t) \<Rightarrow> g t | (Some m, t) \<Rightarrow> f m t)"
  by (rule responsive_recv [OF assms(1), of c k s]) (simp add: assms(2))

lemma completes_info:
  assumes "responsive E n"
    and "\<And>came fi t. length (fi_file_path fi) < MAX_FILE_PATH_SIZE \<Longrightarrow> completes Q (f came fi t)"
  shows "completes Q (case read_info E c s of ((came, fi), t) \<Rightarrow> f came fi t)"
proof -
  obtain came fi t where "read_info E c s = ((came, fi), t)" by (metis surj_pair)
  with assms responsive_info [OF assms(1) this] show ?thesis by simp
qed

lemma completes_dial:
  assumes "\<And>k t. completes Q (f k t)" and "\<And>t. completes Q (a t)" and "\<And>t. completes Q (b t)"
    and "\<And>t. completes Q (d t)"
  shows "completes Q (case dial E ip port s of (Dialled k, t) \<Rightarrow> f k t | (No_socket, t) \<Rightarrow> a t
      | (Bad_address, t) \<Rightarrow> b t | (Refused, t) \<Rightarrow> d t)"
  using assms by (auto split: prod.splits dialled.splits)

lemma completes_loop:
  "completes (\<lambda>_. True) m \<Longrightarrow> completes (\<lambda>_. True) (map_option (\<lambda>r. andthen r (\<lambda>s. Inr (f s))) m)"
  by (cases m) (auto simp: wp_iff)

lemma client_read_file_ends:
  assumes "responsive E n" shows "completes (\<lambda>_. True) (client_read_file n E sock p s)"
  unfolding client_read_file_def Let_def returns_def exits_def
  by (rule completes_info [OF assms])
    (simp add: arr_get_def completes_loop print_all_ends [OF assms] split: prod.split dialled.split)

lemma client_stream_ends:
  assumes "responsive E n" shows "completes (\<lambda>_. True) (client_stream_audio_file n E sock p s)"
proof -
  have play: "completes (\<lambda>_. True) (map_option (\<lambda>s. Inr (f s)) (play_all n E c t))" for f c t
    using play_all_ends [OF assms, of c t] by (cases "play_all n E c t") simp_all
  show ?thesis
    unfolding client_stream_audio_file_def Let_def returns_def exits_def
    by (rule completes_info [OF assms]) (simp add: arr_get_def play split: prod.split dialled.split)
qed

lemma list_command_ends:
  assumes "responsive E n" shows "completes (\<lambda>_. True) (list_command n E sock p s)"
  unfolding list_command_def returns_def by (rule completes_loop) (rule print_list_ends [OF assms])

lemma client_get_file_info_ends:
  assumes "responsive E n" shows "wp (\<lambda>_. True) (client_get_file_info E sock p s)"
  unfolding client_get_file_info_def Let_def returns_def exits_def
  by (simp add: show_response_ends [OF assms] split: prod.split dialled.split)

lemma client_write_file_ends:
  assumes "responsive E n" shows "wp (\<lambda>_. True) (client_write_file E sock p s)"
proof -
  have data: "length (e_junk E ''data'') < 4096" using assms by (simp add: responsive_def)
  show ?thesis
    unfolding client_write_file_def Let_def returns_def exits_def
    by (rule wp_info [OF assms])
      (simp add: arr_get_def data show_response_ends [OF assms] split: prod.split dialled.split option.split)
qed

lemma client_copy_file_ends:
  assumes "responsive E n" shows "wp (\<lambda>_. True) (client_copy_file E sock p q s)"
proof -
  let ?old = "e_junk E ''msg''"
  have old: "?old \<noteq> []" "length ?old < 1024" using assms by (simp_all add: responsive_def)
  have "unat (of_nat (length ?old) - 1 :: 64 word) < 1024"
  proof (cases "length ?old")
    case (Suc m)
    with old show ?thesis by (simp add: unat_of_nat)
  qed (use old in simp)
  then have "wp (\<lambda>_. True)
      (case net_recv E (Peer sock) (unat (of_nat (length ?old) - 1 :: 64 word)) t of
         (None, t) \<Rightarrow> Inl Overflow
       | (Some bs, t) \<Rightarrow> andthen (terminate 1024 bs) (\<lambda>msg. Inr (None, show_text msg t)))" for t
    by (intro wp_recv [OF assms]) simp
  then show ?thesis
    using old unfolding client_copy_file_def Let_def returns_def by (simp only: arr_get_def if_True andthen_Inr)
qed

lemma client_create_file_ends:
  assumes "responsive E n" shows "wp (\<lambda>_. True) (client_create_file E sock d f s)"
  unfolding client_create_file_def Let_def returns_def by (intro wp_recv [OF assms]) simp

lemma delete_file_ends:
  assumes "responsive E n" shows "wp (\<lambda>_. True) (delete_file E sock p s)"
  unfolding delete_file_def Let_def returns_def by (intro wp_recv [OF assms]) simp

section \<open>A served file is shown\<close>

text \<open>Messages that a string buffer holds: not empty, shorter than the buffer, without a NUL.\<close>

definition printable :: "string \<Rightarrow> bool" where
  "printable m \<longleftrightarrow> m \<noteq> [] \<and> length m < BUFFER_SIZE \<and> CHR 0x00 \<notin> set m"

lemma print_all_shows:
  assumes peer: "script E c ms" and ms: "list_all printable ms"
    and took: "received c (trace s) \<le> length ms" and fuel: "length ms - received c (trace s) < n"
  shows "\<exists>tr. print_all n E c s = Some (Inr (s\<lparr>trace := tr, screen := screen s @ drop (received c (trace s)) ms\<rparr>))"
  using took fuel
proof (induction n arbitrary: s)
  case 0
  then show ?case by simp
next
  case (Suc n)
  let ?k = "received c (trace s)"
  show ?case
  proof (cases "?k < length ms")
    case True
    let ?m = "ms ! ?k"
    from ms True have m: "printable ?m" by (simp add: list_all_length)
    let ?s1 = "show_text ?m (emit (Received c ?m) s)"
    have recv: "net_recv E c BUFFER_SIZE s = (Some ?m, emit (Received c ?m) s)"
      using peer True m by (simp add: script_recv printable_def Let_def)
    have "\<exists>tr. print_all n E c ?s1 = Some (Inr (?s1\<lparr>trace := tr, screen := screen ?s1 @ drop (received c (trace ?s1)) ms\<rparr>))"
      by (rule Suc.IH) (use True Suc.prems in \<open>simp_all add: show_text_def\<close>)
    moreover have "drop ?k ms = ?m # drop (Suc ?k) ms" using True by (simp add: Cons_nth_drop_Suc)
    ultimately show ?thesis
      using recv m by (auto simp: printable_def show_text_def emit_def)
  next
    case False
    have "net_recv E c BUFFER_SIZE s = (Some '''', emit (Received c '''') s)"
      using peer False by (simp add: script_recv Let_def)
    with False show ?thesis by (auto simp: emit_def)
  qed
qed

text \<open>A block that fills the buffer makes the client write its terminator behind it.\<close>

lemma print_all_overflow:
  assumes peer: "script E c (m # ms)" and full: "length m = BUFFER_SIZE" and none: "received c (trace s) = 0"
  shows "print_all (Suc n) E c s = Some (Inl Overflow)"
  using assms by (auto simp: script_recv Let_def terminate_def)

end
