(* ===== verification/End_To_End.thy ===== *)
theory End_To_End
  imports NM_System SS_Threads Client
begin

text \<open>
  The programs together: what one of them sends is what another one reads. A theorem of this
  theory runs two or three of the models on each other's messages.
\<close>

section \<open>The client and the naming server\<close>

datatype user_command =
    Read_cmd string
  | Write_cmd string
  | Sync_write_cmd string
  | Info_cmd string
  | Stream_cmd string
  | Create_cmd string string
  | Copy_cmd string string
  | Delete_cmd string
  | List_cmd string

fun words_of :: "user_command \<Rightarrow> string list" where
  "words_of (Read_cmd p) = [p]"
| "words_of (Write_cmd p) = [p]"
| "words_of (Sync_write_cmd p) = [p]"
| "words_of (Info_cmd p) = [p]"
| "words_of (Stream_cmd p) = [p]"
| "words_of (Create_cmd d f) = [d, f]"
| "words_of (Copy_cmd p q) = [p, q]"
| "words_of (Delete_cmd p) = [p]"
| "words_of (List_cmd p) = [p]"

text \<open>The line a user types, and the message it should become.\<close>

fun line_of :: "user_command \<Rightarrow> string" where
  "line_of (Read_cmd p) = ''read '' @ p"
| "line_of (Write_cmd p) = ''write '' @ p"
| "line_of (Sync_write_cmd p) = ''write '' @ p @ '' --sync''"
| "line_of (Info_cmd p) = ''info '' @ p"
| "line_of (Stream_cmd p) = ''stream '' @ p"
| "line_of (Create_cmd d f) = ''create '' @ d @ '' '' @ f"
| "line_of (Copy_cmd p q) = ''copy '' @ p @ '' '' @ q"
| "line_of (Delete_cmd p) = ''delete '' @ p"
| "line_of (List_cmd p) = ''list '' @ p"

fun request_of :: "user_command \<Rightarrow> string" where
  "request_of (Read_cmd p) = ''READ '' @ p"
| "request_of (Write_cmd p) = ''write '' @ p"
| "request_of (Sync_write_cmd p) = ''write '' @ p @ '' --sync''"
| "request_of (Info_cmd p) = ''INFO '' @ p"
| "request_of (Stream_cmd p) = ''STREAM '' @ p"
| "request_of (Create_cmd d f) = ''CREATE '' @ d @ '' '' @ f"
| "request_of (Copy_cmd p q) = ''COPY '' @ p @ '' '' @ q"
| "request_of (Delete_cmd p) = ''DELETE '' @ p"
| "request_of (List_cmd p) = ''list '' @ p"

text \<open>The handler of the naming server the command means.\<close>

fun handler_of :: "user_command \<Rightarrow> env \<Rightarrow> ClientConnection \<Rightarrow> nm \<Rightarrow> (bool \<times> nm) result" where
  "handler_of (Read_cmd p) E cc s = not_waiting (handle_command_read E (socket_fd cc) p s)"
| "handler_of (Write_cmd p) E cc s = handle_command_write E cc (''write '' @ p) p s"
| "handler_of (Sync_write_cmd p) E cc s = handle_command_write E cc (''write '' @ p @ '' --sync'') p s"
| "handler_of (Info_cmd p) E cc s = not_waiting (handle_command_info E (socket_fd cc) p s)"
| "handler_of (Stream_cmd p) E cc s = not_waiting (handle_command_stream E (socket_fd cc) p s)"
| "handler_of (Create_cmd d f) E cc s =
     not_waiting (handle_command_create E (socket_fd cc) (''CREATE '' @ d @ '' '' @ f) d f s)"
| "handler_of (Copy_cmd p q) E cc s = not_waiting (handle_command_copy E (socket_fd cc) p q s)"
| "handler_of (Delete_cmd p) E cc s =
     not_waiting (handle_command_delete E (socket_fd cc) (''DELETE '' @ p) p s)"
| "handler_of (List_cmd p) E cc s = not_waiting (handle_list (socket_fd cc) p s)"

lemma word_unblank: "word p \<Longrightarrow> p \<noteq> [] \<and> (\<forall>c \<in> set p. c \<noteq> CHR '' '')"
  by (auto simp: word_def list_all_iff)

lemma tokens_two: "word a \<Longrightarrow> word p \<Longrightarrow> strtok_all (CHR '' '') (a @ '' '' @ p) = [a, p]"
  using word_unblank [of a] word_unblank [of p] by (simp add: strtok_all_def split_on_word_sep split_on_word)

lemma tokens_three:
  "word a \<Longrightarrow> word p \<Longrightarrow> word q \<Longrightarrow> strtok_all (CHR '' '') (a @ '' '' @ p @ '' '' @ q) = [a, p, q]"
  using word_unblank [of a] word_unblank [of p] word_unblank [of q]
  by (simp add: strtok_all_def split_on_word_sep split_on_word)

lemma commands_are_words:
  "word ''read''" "word ''write''" "word ''info''" "word ''stream''" "word ''create''" "word ''copy''"
  "word ''delete''" "word ''list''" "word ''--sync''" "word ''STREAM''" "word ''COPY''"
  by (rule word_literal; simp)+

lemmas line_tokens = tokens_two [OF commands_are_words(1), simplified] tokens_two [OF commands_are_words(2), simplified]
  tokens_two [OF commands_are_words(3), simplified] tokens_two [OF commands_are_words(4), simplified]
  tokens_three [OF commands_are_words(5), simplified] tokens_three [OF commands_are_words(6), simplified]
  tokens_two [OF commands_are_words(7), simplified] tokens_two [OF commands_are_words(8), simplified]
  tokens_three [OF commands_are_words(2) _ commands_are_words(9), simplified]

lemma process_stream:
  "word p \<Longrightarrow> process_client_command E cc (''STREAM '' @ p) s = not_waiting (handle_command_stream E (socket_fd cc) p s)"
  using dispatch_two [OF commands_are_words(10)] by (simp add: process_client_command_def strncmp_eq_def)

lemma process_copy:
  "word p \<Longrightarrow> word q \<Longrightarrow> process_client_command E cc (''COPY '' @ p @ '' '' @ q) s =
     not_waiting (handle_command_copy E (socket_fd cc) p q s)"
  using dispatch_three [OF commands_are_words(11)] by (simp add: process_client_command_def strncmp_eq_def)

lemma process_write:
  "word p \<Longrightarrow> process_client_command E cc (''write '' @ p) s = handle_command_write E cc (''write '' @ p) p s"
  using dispatch_two [OF commands_are_words(2)] by (simp add: process_client_command_def strncmp_eq_def)

lemma process_sync_write:
  "word p \<Longrightarrow> process_client_command E cc (''write '' @ p @ '' --sync'') s =
     handle_command_write E cc (''write '' @ p @ '' --sync'') p s"
  using dispatch_three [OF commands_are_words(2) _ commands_are_words(9)]
  by (simp add: process_client_command_def strncmp_eq_def)

lemma asked_cut: "asked sock m (s\<lparr>command_line := x\<rparr>) = asked sock m s"
  by (simp add: asked_def fun_eq_iff)

lemmas line_run = run_command_def line_tokens strncmp_eq_def Let_def asked_cut

lemma lines_ask:
  assumes ws: "list_all word (words_of cmd)" and cut: "snprintf BUFFER_SIZE (request_of cmd) = request_of cmd"
  shows "ends (asked sock (request_of cmd) s) (run_command fuel C sock (line_of cmd) s)"
proof (cases cmd)
  case (Read_cmd p)
  with ws cut client_read_file_asks [of sock p "s\<lparr>command_line := x\<rparr>" for x] show ?thesis
    by (simp add: line_run)
next
  case (Write_cmd p)
  with ws cut client_write_asks [of sock "''write '' @ p" "s\<lparr>command_line := x\<rparr>" for x] show ?thesis
    by (simp add: line_run)
next
  case (Sync_write_cmd p)
  with ws cut client_write_asks [of sock "''write '' @ p @ '' --sync''" "s\<lparr>command_line := x\<rparr>" for x]
  show ?thesis
    by (simp add: line_run)
next
  case (Info_cmd p)
  with ws cut client_get_file_info_asks [of sock p "s\<lparr>command_line := x\<rparr>" for x] show ?thesis
    by (simp add: line_run)
next
  case (Stream_cmd p)
  with ws cut client_stream_asks [of sock p "s\<lparr>command_line := x\<rparr>" for x] show ?thesis
    by (simp add: line_run)
next
  case (Create_cmd d f)
  with ws cut client_create_file_asks [of sock d f "s\<lparr>command_line := x\<rparr>" for x] show ?thesis
    by (simp add: line_run)
next
  case (Copy_cmd p q)
  with ws cut client_copy_file_asks [of sock p q "s\<lparr>command_line := x\<rparr>" for x] show ?thesis
    by (simp add: line_run)
next
  case (Delete_cmd p)
  with ws cut delete_file_asks [of sock p "s\<lparr>command_line := x\<rparr>" for x] show ?thesis
    by (simp add: line_run)
next
  case (List_cmd p)
  with ws cut list_command_asks [of sock p "s\<lparr>command_line := x\<rparr>" for x] show ?thesis
    by (simp add: line_run)
qed

lemmas client_ends = client_read_file_ends client_stream_ends list_command_ends client_get_file_info_ends
  client_write_file_ends client_copy_file_ends client_create_file_ends delete_file_ends

lemma lines_complete:
  assumes "list_all word (words_of cmd)" and peers: "responsive C fuel"
  shows "completes (\<lambda>_. True) (run_command fuel C sock (line_of cmd) s)"
  using assms(1) by (cases cmd) (simp_all add: line_run client_ends [OF peers])

lemma requests_reach:
  "list_all word (words_of cmd) \<Longrightarrow> process_client_command E cc (request_of cmd) m = handler_of cmd E cc m"
  by (cases cmd) (simp_all add: process_read process_write process_sync_write process_info
      process_stream process_create process_copy process_delete process_list del: append_Cons)

text \<open>
  C11: Every command line of words, typed at the client, is run to its end, when the peers close
  after fewer messages than the fuel and no message fills the buffer; the first message of the run
  is the request that makes the naming server run the handler the command means, with the words as
  its arguments.
\<close>

lemma requests_understood:
  assumes "list_all word (words_of cmd)" and "length (request_of cmd) < BUFFER_SIZE" and "responsive C fuel"
  shows "(\<exists>code s'. run_command fuel C sock (line_of cmd) s = Some (Inr (code, s')) \<and>
            prefix (trace s @ [Sent (Peer sock) (Text (request_of cmd))]) (trace s')) \<and>
    process_client_command E cc (request_of cmd) m = handler_of cmd E cc m"
proof -
  have "ends (asked sock (request_of cmd) s) (run_command fuel C sock (line_of cmd) s)"
    using assms by (intro lines_ask) simp_all
  with lines_complete [OF assms(1,3)]
  have "completes (asked sock (request_of cmd) s) (run_command fuel C sock (line_of cmd) s)"
    by (rule completes_ends)
  with requests_reach [OF assms(1)] show ?thesis
    by (auto simp: completes_def asked_def wp_iff split: option.splits)
qed

section \<open>Reading a file\<close>

text \<open>
  The record the client gets and the connections it can open. The first connection is the one to
  the naming server; a connection is named by the length of the trace when it is opened.
\<close>

definition gets_record :: "console \<Rightarrow> nat \<Rightarrow> FILEINFO \<Rightarrow> cl \<Rightarrow> bool" where
  "gets_record C sock fi c \<longleftrightarrow> (\<forall>tr. c_read_info C tr (Peer sock) = Some (InfoMsg fi)) \<and>
     (\<forall>tr ip port. e_pton C ip \<and> e_socket C tr \<and> e_connect C tr ip port) \<and>
     sock < length (trace c) \<and> (\<forall>k \<ge> length (trace c). received (Peer k) (trace c) = 0)"

definition usable_record :: "FILEINFO \<Rightarrow> bool" where
  "usable_record fi \<longleftrightarrow> fi_port_client fi \<noteq> 0 \<and> length (fi_file_path fi) < MAX_FILE_PATH_SIZE \<and>
     CHR 0x00 \<notin> set (fi_file_path fi)"

lemma client_reads:
  assumes named: "word p" and fi: "usable_record fi" and net: "gets_record C sock fi c"
  shows "\<exists>k s1. run_command n C sock (''read '' @ p) c =
     map_option (\<lambda>r. andthen r (\<lambda>s. returns (net_close (Peer k) s))) (print_all n C (Peer k) s1) \<and>
     screen s1 = screen c @ [info_line fi] \<and> received (Peer k) (trace s1) = 0"
proof -
  let ?c = "c\<lparr>command_line := snd (strtok_first (CHR '' '') (''read '' @ p))\<rparr>"
  let ?s1 = "show_text (info_line fi) (emit (Received (Peer sock) ''FILEINFO'')
      (send_text (Peer sock) (snprintf BUFFER_SIZE (''READ '' @ p)) ?c))"
  let ?k = "length (trace ?s1)"
  let ?s2 = "send_text (Peer ?k) (snprintf BUFFER_SIZE (''READ '' @ fi_file_path fi))
        (emit (Connected ?k (fi_ip fi) (htons (fi_port_client fi))) ?s1)"
  have "run_command n C sock (''read '' @ p) c = client_read_file n C sock p ?c"
    using named by (simp add: run_command_def line_tokens strncmp_eq_def Let_def)
  also have "\<dots> = map_option (\<lambda>r. andthen r (\<lambda>s. returns (net_close (Peer ?k) s))) (print_all n C (Peer ?k) ?s2)"
    using fi net by (simp add: client_read_file_def Let_def read_info_def dial_def usable_record_def gets_record_def)
  finally have run: "run_command n C sock (''read '' @ p) c =
    map_option (\<lambda>r. andthen r (\<lambda>s. returns (net_close (Peer ?k) s))) (print_all n C (Peer ?k) ?s2)" .
  have "screen ?s2 = screen c @ [info_line fi]"
    by (simp add: show_text_def send_text_def net_send_def emit_def)
  moreover have "received (Peer ?k) (trace ?s2) = 0"
    using net by (simp add: show_text_def gets_record_def)
  ultimately show ?thesis using run by blast
qed

lemma naming_server_answers:
  assumes "coherent m" and "path_ok p" and "homes_fit (length p) m"
    and "\<And>fi. info_at (file_trie m) p = Some fi \<Longrightarrow> info_ok fi" and named: "word p"
  shows "wp (\<lambda>(w, m'). \<not> w \<and> replies (Conn (socket_fd cc)) m' =
      replies (Conn (socket_fd cc)) m @ [InfoMsg (read_answer m p)])
    (process_client_command E cc (''READ '' @ p) m)"
  unfolding process_read [OF named] not_waiting_def
  using handle_command_read_answers [OF assms(1-4), of "socket_fd cc" E] by (auto elim!: wp_mono)

lemma storage_server_answers:
  assumes fi: "usable_record fi" and t: "file_content H (fi_file_path fi) s = Some t"
    and free: "fi_file_path fi \<notin> set (files_being_accessed s)" and room: "length (files_being_read s) < MAX_PATHS"
    and host: "\<And>tr k. h_open H tr k" "\<And>tr. \<not> h_ioerr H tr"
  shows "wp (\<lambda>s'. replies c s' = replies c s @ map Text (blocks BUFFER_SIZE t) \<and> disk s' = disk s)
     (client_command H c (''READ '' @ fi_file_path fi) s)"
proof -
  have path: "path_fits (fi_file_path fi)" and nul: "CHR 0x00 \<notin> set (fi_file_path fi)"
    using fi by (simp_all add: path_fits_def usable_record_def)
  from read_file_serves [OF path room free t host(1,2), of c] show ?thesis
    unfolding request_read [OF nul] by (auto elim!: wp_mono)
qed

text \<open>
  C1: A user who types \<open>read\<close> and the name of a file of less than 4096 bytes sees its record and
  its content: the naming server answers the request with the record of a server that is up, that
  server sends the content, and the client shows it and is ready for the next command.
\<close>

lemma read_end_to_end:
  fixes m :: nm and s :: ss and p :: string
  defines "fi \<equiv> read_answer m p"
  assumes nm: "coherent m" "path_ok p" "homes_fit (length p) m"
      "\<And>fi. info_at (file_trie m) p = Some fi \<Longrightarrow> info_ok fi"
    and named: "word p" and fi: "usable_record fi"
    and t: "file_content H (fi_file_path fi) s = Some t"
    and free: "fi_file_path fi \<notin> set (files_being_accessed s)" "length (files_being_read s) < MAX_PATHS"
    and host: "\<And>tr k. h_open H tr k" "\<And>tr. \<not> h_ioerr H tr"
    and net: "gets_record C sock fi c" "\<And>k. script C (Peer k) (blocks BUFFER_SIZE t)"
    and short: "printable t" and fuel: "1 < n"
  shows "wp (\<lambda>(w, m'). replies (Conn (socket_fd cc)) m' = replies (Conn (socket_fd cc)) m @ [InfoMsg fi])
           (process_client_command E cc (''READ '' @ p) m) \<and>
         wp (\<lambda>s'. replies (Conn fd) s' = replies (Conn fd) s @ [Text t])
           (client_command H (Conn fd) (''READ '' @ fi_file_path fi) s) \<and>
         (\<exists>c'. run_command n C sock (''read '' @ p) c = Some (Inr (None, c')) \<and>
           screen c' = screen c @ [info_line fi, t])"
proof (intro conjI)
  have one: "blocks BUFFER_SIZE t = [t]" using short by (intro blocks_short) (auto simp: printable_def)
  show "wp (\<lambda>(w, m'). replies (Conn (socket_fd cc)) m' = replies (Conn (socket_fd cc)) m @ [InfoMsg fi])
           (process_client_command E cc (''READ '' @ p) m)"
    unfolding fi_def by (rule wp_mono [OF naming_server_answers [OF nm named]]) auto
  show "wp (\<lambda>s'. replies (Conn fd) s' = replies (Conn fd) s @ [Text t])
           (client_command H (Conn fd) (''READ '' @ fi_file_path fi) s)"
    by (rule wp_mono [OF storage_server_answers [OF fi t free host]]) (simp add: one)
  obtain k s1 where run: "run_command n C sock (''read '' @ p) c =
     map_option (\<lambda>r. andthen r (\<lambda>s. returns (net_close (Peer k) s))) (print_all n C (Peer k) s1)"
    and s1: "screen s1 = screen c @ [info_line fi]" "received (Peer k) (trace s1) = 0"
    using client_reads [OF named fi net(1), of n] by blast
  have "\<exists>tr. print_all n C (Peer k) s1 = Some (Inr (s1\<lparr>trace := tr, screen := screen s1 @ drop (received (Peer k) (trace s1)) [t]\<rparr>))"
    by (rule print_all_shows) (use net(2) one short fuel s1 in simp_all)
  then show "\<exists>c'. run_command n C sock (''read '' @ p) c = Some (Inr (None, c')) \<and>
           screen c' = screen c @ [info_line fi, t]"
    using run s1 by (auto simp: returns_def net_close_def emit_def)
qed

text \<open>
  C38: A file of 4096 bytes or more, delivered as the storage server sends it, makes the client
  write the terminator of its first block behind the buffer.
\<close>

lemma long_file_overflows:
  assumes named: "word p" and fi: "usable_record fi" and net: "gets_record C sock fi c"
    and blocks: "\<And>k. script C (Peer k) (blocks BUFFER_SIZE t)" and long: "BUFFER_SIZE \<le> length t"
  shows "run_command (Suc n) C sock (''read '' @ p) c = Some (Inl Overflow)"
proof -
  obtain k s1 where run: "run_command (Suc n) C sock (''read '' @ p) c =
     map_option (\<lambda>r. andthen r (\<lambda>s. returns (net_close (Peer k) s))) (print_all (Suc n) C (Peer k) s1)"
    and s1: "received (Peer k) (trace s1) = 0"
    using client_reads [OF named fi net, of "Suc n"] by blast
  have "blocks BUFFER_SIZE t = take BUFFER_SIZE t # blocks BUFFER_SIZE (drop BUFFER_SIZE t)"
    using long by (subst blocks.simps) auto
  then have "print_all (Suc n) C (Peer k) s1 = Some (Inl Overflow)"
    using print_all_overflow [of C "Peer k" "take BUFFER_SIZE t"] blocks [of k] long s1 by simp
  with run show ?thesis by simp
qed

section \<open>Registration\<close>

text \<open>Names that survive the list: not empty and without its separator.\<close>

definition plain_path :: "string \<Rightarrow> bool" where
  "plain_path p \<longleftrightarrow> p \<noteq> [] \<and> CHR '','' \<notin> set p"

lemma join_paths_split: "list_all plain_path ps \<Longrightarrow> strtok_all (CHR '','') (join_paths ps) = ps"
  unfolding strtok_all_def
proof (induction ps rule: join_paths.induct)
  case (2 p)
  then show ?case by (simp add: plain_path_def) (rule split_on_word; auto)
next
  case (3 p q ps)
  have "split_on (\<lambda>c. c = CHR '','') (p @ CHR '','' # join_paths (q # ps)) =
      p # split_on (\<lambda>c. c = CHR '','') (join_paths (q # ps))"
    by (rule split_on_word_sep) (use 3(2) in \<open>auto simp: plain_path_def\<close>)
  with 3 show ?case by simp
qed simp

text \<open>
  C16: What a storage server registers with is what it scanned: the record it sends carries its
  ports, and the naming server reads the scanned paths, all of them and in order, out of the one
  string they were joined to, when that string fits its buffer.
\<close>

lemma registration_roundtrip:
  assumes scan: "scan_directory fuel H (sp_homedir sp) s = Some (Inr s1)" and ip: "sp_ip sp = Some ip"
    and nm: "e_pton H (sp_nm_ip sp)" "\<And>tr. e_socket H tr" "\<And>tr. e_connect H tr (sp_nm_ip sp) (htons (sp_nm_port sp))"
    and plain: "list_all plain_path (accessible_paths s1)"
    and fits: "length (join_paths (accessible_paths s1)) < BUFFER_SIZE"
  shows "\<exists>k s' r. start_storage_server fuel H sp s = Some (Inr (Some k, s')) \<and>
    sent_on (Peer k) (trace s') = sent_on (Peer k) (trace s1) @ [Text ''REGISTER'', RegisterMsg r] \<and>
    strtok_all (CHR '','') (ss_accessible_paths r) = accessible_paths s1 \<and>
    ss_port_nm r = sp_nm_port_to_recieve sp \<and> ss_port_client r = sp_client_port sp"
proof -
  let ?r = "registration sp ip (join_paths (accessible_paths s1))"
  let ?k = "length (trace s1)"
  let ?s2 = "net_send (Peer ?k) (RegisterMsg ?r) (send_text (Peer ?k) ''REGISTER''
      (emit (Connected ?k (sp_nm_ip sp) (htons (sp_nm_port sp))) s1))"
  obtain x s' where recv: "net_recv H (Peer ?k) BUFFER_SIZE ?s2 = (x, s')" by fastforce
  have "start_storage_server fuel H sp s = Some (Inr (Some ?k, s'))"
    using scan ip nm fits recv by (simp add: start_storage_server_def dial_def Let_def)
  moreover have "sent_on (Peer ?k) (trace s') = sent_on (Peer ?k) (trace s1) @ [Text ''REGISTER'', RegisterMsg ?r]"
    using replies_net_recv_eq [OF recv, of "Peer ?k"] by (simp add: replies_def)
  moreover have "strtok_all (CHR '','') (ss_accessible_paths ?r) = accessible_paths s1"
    using fits plain by (simp add: registration_def join_paths_split)
  ultimately show ?thesis by (intro exI [of _ ?k] exI [of _ s'] exI [of _ ?r]) (simp add: registration_def)
qed

section \<open>A refused write completes\<close>

text \<open>
  C23: A client that waits for an asynchronous write is told that the write completed although the
  storage server refused it because the file was being read: the refusal goes to the client's other
  connection, and the naming server believes the report.
\<close>

lemma refused_write_completes:
  fixes s :: ss and m :: nm
  assumes name: "word p" "length p < 4000" "CHR 0x00 \<notin> set p" "\<not> sublist ''--sync'' (''WRITE '' @ p)"
    and busy: "p \<in> set (files_being_read s)" and nm: "nm_reachable H s"
    and last: "write_clients m = cs @ [c]" and c: "ci_file_path c = p" "ci_active c \<noteq> 0"
    and first: "\<forall>d \<in> set cs. ci_file_path d \<noteq> p \<or> ci_active d = 0"
    and report: "e_recv E (trace m) (Conn ssfd) = Some (''write '' @ p)" and other: "ssfd \<noteq> fd"
  shows "wp (\<lambda>s'. disk s' = disk s \<and>
            delivered s' = delivered s @ [(Some (nm_address s), Text (''write '' @ p))])
           (client_command H (Conn cfd) (''WRITE '' @ p) s) \<and>
         wp (\<lambda>(r, m'). r = None \<and> (case write_wait fd m' of (finished, m'') \<Rightarrow>
               finished \<and> replies (Conn fd) m'' = replies (Conn fd) m @ [Text (''Write completed'' @ nl)]))
           (storage_message E ssfd m)"
proof
  have fits: "path_fits p" and msg: "snprintf BUFFER_SIZE (''write '' @ p) = ''write '' @ p"
    using name(2) by (simp_all add: path_fits_def)
  show "wp (\<lambda>s'. disk s' = disk s \<and>
            delivered s' = delivered s @ [(Some (nm_address s), Text (''write '' @ p))])
           (client_command H (Conn cfd) (''WRITE '' @ p) s)"
    by (rule wp_mono [OF refused_write_report [OF fits name(3,4) busy nm]]) (simp add: msg del: append_Cons)
  let ?m1 = "emit (Received (Conn ssfd) (''write '' @ p)) m"
  have recv: "net_recv E (Conn ssfd) (BUFFER_SIZE - 1) m = (Some (''write '' @ p), ?m1)"
    using report name(2) by (simp add: net_recv_def)
  have words: "sscanf_words (''write '' @ p) = [''write'', p]"
    using sscanf_words_Cons [OF commands_are_words(2), of p] name(1) by (simp add: sscanf_words_one)
  have clean: "c_str (''write '' @ p) = ''write '' @ p" using name(3) by simp
  have run: "storage_message E ssfd m = Inr (None, net_close (Conn ssfd) (notify_write p ?m1))"
    unfolding storage_message_def recv prod.case option.case Let_def clean words by (simp add: strncmp_eq_def)
  have "write_clients (net_close (Conn ssfd) (notify_write p ?m1)) = cs @ [c\<lparr>ci_status := 1\<rparr>]"
    using notify_last [of ?m1 cs c p] last c first by (simp add: net_close_def emit_def)
  moreover have "replies (Conn fd) (net_close (Conn ssfd) (notify_write p ?m1)) = replies (Conn fd) m"
    by (simp add: notify_write_def replies_def split: option.splits)
  ultimately show "wp (\<lambda>(r, m'). r = None \<and> (case write_wait fd m' of (finished, m'') \<Rightarrow>
               finished \<and> replies (Conn fd) m'' = replies (Conn fd) m @ [Text (''Write completed'' @ nl)]))
           (storage_message E ssfd m)"
    unfolding run by (simp add: write_wait_def Let_def nth_append replies_def)
qed

section \<open>The request for a folder copy\<close>

lemma scanf_s_word:
  assumes "word w" and "length w < n"
  shows "scanf_s n (w @ CHR '' '' # rest) = Inr (Some (w, CHR '' '' # rest))"
    and "scanf_s n (CHR '' '' # w @ CHR '' '' # rest) = Inr (Some (w, CHR '' '' # rest))"
proof -
  from assms obtain a v where w: "w = a # v" "\<not> isspace a" "\<forall>c \<in> set v. \<not> isspace c"
    by (cases w) (auto simp: word_def list_all_iff)
  then have "takeWhile (\<lambda>c. \<not> isspace c) (w @ CHR '' '' # rest) = w"
    and "dropWhile (\<lambda>c. \<not> isspace c) (w @ CHR '' '' # rest) = CHR '' '' # rest"
    by (simp_all add: takeWhile_append2 dropWhile_append2)
  with w assms(2) show "scanf_s n (w @ CHR '' '' # rest) = Inr (Some (w, CHR '' '' # rest))"
    and "scanf_s n (CHR '' '' # w @ CHR '' '' # rest) = Inr (Some (w, CHR '' '' # rest))"
    by (simp_all add: scanf_s_def Let_def)
qed

lemma scanf_d_dec:
  assumes "rest = [] \<or> \<not> isdigit (hd rest)"
  shows "scanf_d (CHR '' '' # dec i @ rest) = Some (i, rest)"
proof -
  have digits: "takeWhile isdigit (dec_nat n @ rest) = dec_nat n" "dropWhile isdigit (dec_nat n @ rest) = rest" for n
    using assms dec_nat_digits [of n]
    by (cases rest; auto simp: takeWhile_append2 dropWhile_append2)+
  show ?thesis
  proof (cases "i < 0")
    case True
    then show ?thesis
      using digits [of "nat (- i)"] dec_nat_nonempty [of "nat (- i)"]
      by (simp add: scanf_d_def dec_def isspace_def atoi_digits_dec_nat Let_def)
  next
    case False
    obtain a v where d: "dec_nat (nat i) = a # v" "isdigit a"
      using dec_nat_nonempty [of "nat i"] dec_nat_digits [of "nat i"] by (cases "dec_nat (nat i)") auto
    then have "\<not> isspace a" "a \<noteq> CHR ''-''" "a \<noteq> CHR ''+''" by (auto dest: isdigit_not)
    with False d digits [of "nat i"] show ?thesis
      using atoi_digits_dec_nat [of "nat i"] by (simp add: scanf_d_def dec_def isspace_def Let_def)
  qed
qed

text \<open>
  C29: The storage server reads back from the naming server's request for a folder copy exactly the
  source path, the address and port of the destination, the destination path and the flag for a
  copy inside one server, when every word is shorter than 100 bytes.
\<close>

lemma copy_request_roundtrip:
  assumes ok: "copy_folder_request src dst = Inr request"
    and ws: "list_all (\<lambda>w. word w \<and> length w < 100) [fi_file_path src, fi_ip dst, fi_file_path dst]"
    and fits: "length request < BUFFER_SIZE - 1"
  shows "scan_copy H (drop 12 request) =
    Inr (fi_file_path src, fi_ip dst, fi_port_client dst, fi_file_path dst, same_owner src dst)"
proof -
  let ?args = "fi_file_path src @ CHR '' '' # fi_ip dst @ CHR '' '' # dec (fi_port_client dst) @ CHR '' '' #
      fi_file_path dst @ CHR '' '' # dec (same_owner src dst)"
  have "length (fi_file_path src) < MAX_FILE_PATH_SIZE" "length (fi_file_path dst) < MAX_FILE_PATH_SIZE"
    using ws by auto
  with ok have r: "request = snprintf BUFFER_SIZE (''COPY_FOLDER '' @ ?args)"
    by (simp add: copy_folder_request_def)
  then have "request = ''COPY_FOLDER '' @ ?args"
    using fits by (auto simp: snprintf_def)
  then have "drop 12 request = ?args" by simp
  moreover have "scanf_d (CHR '' '' # dec (fi_port_client dst) @ CHR '' '' # x) = Some (fi_port_client dst, CHR '' '' # x)" for x
    by (rule scanf_d_dec) (simp add: isdigit_def)
  moreover have "scanf_d (CHR '' '' # dec (same_owner src dst)) = Some (same_owner src dst, [])"
    using scanf_d_dec [of "[]" "same_owner src dst"] by simp
  ultimately show ?thesis
    using ws by (simp add: scan_copy_def scanf_s_word Let_def)
qed

section \<open>A folder copy between two servers\<close>

text \<open>The receiving server, on the three messages of a folder copy.\<close>

lemma paste_request_overflows:
  assumes peer: "script E (Conn fd) [''PASTE_FOLDER '' @ p, size_bytes (of_nat (length z)), z]"
    and new: "received (Conn fd) (trace s) = 0" and p: "length p < 4000" and z: "length z < 2 ^ 64"
    and sh: "\<And>tr d cmd k. fst (h_system E tr d cmd k) \<noteq> -1"
  shows "handle_client_request E fd s = Inl Overflow"
proof -
  let ?req = "''PASTE_FOLDER '' @ p"
  let ?s1 = "emit (Received (Conn fd) ?req) s"
  have "net_recv E (Conn fd) (BUFFER_SIZE - 1) s = (Some ?req, ?s1)"
    using peer new p by (simp add: script_recv Let_def)
  moreover have "strncmp_eq 12 (c_str ?req) ''PASTE_FOLDER''"
    by (simp add: c_str_def strncmp_eq_def)
  moreover have "paste_to_folder E q (Conn fd) ?s1 = Inl Overflow" for q
    by (rule paste_overflow [OF peer _ z sh]) (simp add: new)
  ultimately show ?thesis
    by (simp add: handle_client_request_def client_command_def Let_def del: append_Cons)
qed

text \<open>
  C36: A folder copy to another server ends with a heap overflow there: the sender sends a request,
  the size and the archive and tells its client that the copy is complete, and any server that
  receives just these messages, each in one piece, writes behind the block it allocated.
\<close>

lemma folder_copy_overflows:
  assumes scan: "scan_copy H text = Inr (path, ip, port, dest, 0)" and short: "length text < 100"
    and names: "length path < 100" "length dest < 100"
    and zip: "zip_folder H path s = (True, s1)"
    and z: "file_content H (path @ ''.zip'') s1 = Some z" "length z < 2 ^ 64"
    and grant: "\<And>tr k. h_open H tr k" and noerr: "\<And>tr. \<not> h_ioerr H tr" and sent: "\<And>tr. h_send H tr"
    and up: "e_pton H ip" "\<And>tr. e_socket H tr \<and> e_connect H tr ip (htons port)"
  shows "wp (\<lambda>(r, s'). \<exists>ms. delivered s' = delivered s1 @ map (\<lambda>m. (Some (ip, htons port), Text m)) ms \<and>
            replies (Conn fd) s' = replies (Conn fd) s1 @ [Text (''completed copying'' @ [CHR 0x00])] \<and>
            (\<forall>E fd t. script E (Conn fd) ms \<longrightarrow> received (Conn fd) (trace t) = 0 \<longrightarrow>
               (\<forall>tr d cmd k. fst (h_system E tr d cmd k) \<noteq> -1) \<longrightarrow> handle_client_request E fd t = Inl Overflow))
     (copy_from_folder H text (Conn fd) s)"
proof -
  let ?p = "dest @ ''/'' @ getFileName path @ ''.zip''"
  have "length (getFileName path) \<le> length path" by (simp add: getFileName_def split: option.split)
  then have p: "length ?p < 4000" using names by simp
  have cut: "snprintf BUFFER_SIZE (path @ ''.zip'') = path @ ''.zip''"
      "snprintf 5000 (''PASTE_FOLDER '' @ snprintf BUFFER_SIZE ?p) = ''PASTE_FOLDER '' @ ?p"
    using names p by (simp_all del: append_Cons)
  from copy_from_folder_sends [OF scan short zip _ grant noerr sent up, of z fd] z(1) cut
  have "wp (\<lambda>(r, s'). delivered s' = delivered s1 @ map (\<lambda>m. (Some (ip, htons port), Text m))
              [''PASTE_FOLDER '' @ ?p, size_bytes (of_nat (length z)), z] \<and>
            replies (Conn fd) s' = replies (Conn fd) s1 @ [Text (''completed copying'' @ [CHR 0x00])])
     (copy_from_folder H text (Conn fd) s)"
    by (simp only:)
  then show ?thesis
  proof (rule wp_mono, clarify, intro exI conjI allI impI)
    show "handle_client_request E k t = Inl Overflow"
      if "script E (Conn k) [''PASTE_FOLDER '' @ ?p, size_bytes (of_nat (length z)), z]"
        and "received (Conn k) (trace t) = 0" and "\<forall>tr d cmd k. fst (h_system E tr d cmd k) \<noteq> -1" for E k t
      using paste_request_overflows [OF that(1,2) p z(2)] that(3) by blast
  qed
qed

section \<open>Sample runs\<close>

definition sample_console :: "FILEINFO \<Rightarrow> string list \<Rightarrow> console" where
  "sample_console fi ms = \<lparr>e_socket = \<lambda>_. True, e_pton = \<lambda>_. True, e_connect = \<lambda>_ _ _. True,
     e_recv = \<lambda>tr c. Some (if received c tr < length ms then ms ! received c tr else ''''),
     e_recv_info = undefined, e_log = \<lambda>_. True, e_junk = \<lambda>_. ''xyz'', e_getcwd = \<lambda>_. None, e_stat = \<lambda>_ _. None,
     c_read_info = \<lambda>_ _. Some (InfoMsg fi), c_junk_info = empty_file_info, c_overlay = \<lambda>_. empty_file_info,
     c_stdin = \<lambda>_. None, c_popen = \<lambda>_. True\<rparr>"

definition sample_cl :: cl where
  "sample_cl = \<lparr>trace = [Connected 0 ''10.0.0.9'' 8081], screen = [], played = '''', command_line = ''''\<rparr>"

lemma sample_record [simp]: "gets_record (sample_console fi ms) 0 fi sample_cl"
  by (simp add: gets_record_def sample_console_def sample_cl_def)

lemma sample_script [simp]: "script (sample_console fi ms) c ms"
  by (simp add: script_def sample_console_def)

lemma sample_responsive:
  assumes "length ms < n" "list_all (\<lambda>m. length m < BUFFER_SIZE) ms" "length (fi_file_path fi) < MAX_FILE_PATH_SIZE"
  shows "responsive (sample_console fi ms) n"
proof -
  have "\<exists>ms'. script (sample_console fi ms) c ms' \<and> length ms' < n \<and> list_all (\<lambda>m. length m < BUFFER_SIZE) ms'" for c
    using assms(1,2) by (intro exI [of _ ms]) simp
  then show ?thesis using assms(3) by (simp add: responsive_def sample_console_def empty_file_info_def)
qed

lemma requests_understood_witness:
  "(\<exists>code s'. run_command 2 (sample_console leaf_info [''created'']) 0 ''create d g.c'' sample_cl = Some (Inr (code, s')) \<and>
      prefix (trace sample_cl @ [Sent (Peer 0) (Text ''CREATE d g.c'')]) (trace s')) \<and>
   process_client_command sample_env sample_client ''CREATE d g.c'' sample_nm =
     not_waiting (handle_command_create sample_env 4 ''CREATE d g.c'' ''d'' ''g.c'' sample_nm)"
proof -
  have "list_all word (words_of (Create_cmd ''d'' ''g.c''))" by (simp add: word_def isspace_def)
  moreover have "responsive (sample_console leaf_info [''created'']) 2"
    by (rule sample_responsive) (simp_all add: leaf_info_def)
  ultimately show ?thesis
    using requests_understood [of "Create_cmd ''d'' ''g.c''" "sample_console leaf_info [''created'']" 2 0 sample_cl
        sample_env sample_client sample_nm]
    by (simp add: sample_client_def)
qed

lemma usable_leaf [simp]: "usable_record leaf_info"
  by (simp add: usable_record_def)

lemma words_sample [simp]: "word ''d/f.c''" "word ''d''"
  by (simp_all add: word_def isspace_def)

lemma read_answer_sample [simp]: "read_answer sample_nm ''d/f.c'' = leaf_info"
  by (simp add: read_answer_def server_index_def owner_row_def Let_def)

lemma read_end_to_end_witness:
  "\<exists>c'. run_command 2 (sample_console leaf_info [''hello'']) 0 (''read '' @ ''d/f.c'') sample_cl = Some (Inr (None, c')) \<and>
     screen c' = [info_line leaf_info, ''hello'']"
proof -
  have one: "blocks BUFFER_SIZE ''hello'' = [''hello'']" by (rule blocks_short) simp_all
  have homes: "homes_fit (length ''d/f.c'') sample_nm"
    by (simp add: homes_fit_def home_def owner_row_def strtok_first_def Let_def)
  have oks: "info_ok fi" if "info_at (file_trie sample_nm) ''d/f.c'' = Some fi" for fi
    using that by (simp add: info_ok_def)
  show ?thesis
    using read_end_to_end [of sample_nm "''d/f.c''" sample_host sample_ss "''hello''"
        "sample_console leaf_info [''hello'']" 0 sample_cl 2 sample_client sample_env 5] homes oks
    by (simp add: one printable_def sample_cl_def [THEN arg_cong [of _ _ screen]])
qed

lemma long_file_overflows_witness:
  "run_command 1 (sample_console leaf_info (blocks BUFFER_SIZE (replicate BUFFER_SIZE (CHR ''x'')))) 0 (''read '' @ ''d/f.c'') sample_cl =
     Some (Inl Overflow)"
  using long_file_overflows [of "''d/f.c''" leaf_info _ 0 sample_cl "replicate BUFFER_SIZE (CHR ''x'')" 0] by simp

definition sample_params :: ServerParams where
  "sample_params = \<lparr>sp_nm_ip = ''10.0.0.9'', sp_nm_port = 8081, sp_client_port = 5002,
     sp_nm_port_to_recieve = 5001, sp_ip = Some ''10.0.0.1'', sp_homedir = ''d'', sp_ss_port = 5003\<rparr>"

lemma registration_roundtrip_witness:
  "\<exists>k s' r. start_storage_server 1 sample_host sample_params sample_ss = Some (Inr (Some k, s')) \<and>
     sent_on (Peer k) (trace s') = sent_on (Peer k) (trace sample_ss) @ [Text ''REGISTER'', RegisterMsg r] \<and>
     strtok_all (CHR '','') (ss_accessible_paths r) = [''d'', ''d/f.c'']"
proof -
  have "shape sample_host sample_ss ''d'' (Dir [(''f.c'', Leaf)])"
    by (simp add: node_at_def sample_host_def path_fits_def file_at_def)
  then have "scan_directory 1 sample_host ''d'' sample_ss = Some (Inr (scanned [''d'', ''d/f.c''] sample_ss))"
    using scan_lists [of sample_host sample_ss "''d''" "[(''f.c'', Leaf)]" 1] by (simp add: path_fits_def)
  then show ?thesis
    using registration_roundtrip [of 1 sample_host sample_params sample_ss
        "scanned [''d'', ''d/f.c''] sample_ss" "''10.0.0.1''"]
    by (fastforce simp: sample_params_def plain_path_def)
qed

lemma refused_write_completes_witness:
  "wp (\<lambda>(r, m'). case write_wait 4 m' of (finished, m'') \<Rightarrow> finished \<and>
        replies (Conn 4) m'' = [Text (''Write completed'' @ nl)])
     (storage_message (sample_env\<lparr>e_recv := \<lambda>_ _. Some (''write '' @ ''d/f.c'')\<rparr>) 9
       (sample_nm\<lparr>write_clients := [pending ''d/f.c'' 0]\<rparr>))"
proof -
  have "\<not> sublist ''--sync'' (''WRITE '' @ ''d/f.c'')" by (simp add: sublist_code)
  then show ?thesis
    using refused_write_completes [of "''d/f.c''" "sample_ss\<lparr>files_being_read := [''d/f.c'']\<rparr>" sample_host
        "sample_nm\<lparr>write_clients := [pending ''d/f.c'' 0]\<rparr>" "[]" "pending ''d/f.c'' 0"
        "sample_env\<lparr>e_recv := \<lambda>_ _. Some (''write '' @ ''d/f.c'')\<rparr>" 9 4 5]
    by (auto simp: pending_def replies_def elim!: wp_mono)
qed

lemma copy_request_roundtrip_witness:
  "scan_copy sample_host ''d 10.0.0.1 5002 d/f.c 1'' = Inr (''d'', ''10.0.0.1'', 5002, ''d/f.c'', 1)"
proof -
  have five: "char_of (48::nat) = CHR ''0''" "char_of (49::nat) = CHR ''1''" "char_of (50::nat) = CHR ''2''"
      "char_of (53::nat) = CHR ''5''"
    by code_simp+
  have r: "copy_folder_request dir_info leaf_info = Inr ''COPY_FOLDER d 10.0.0.1 5002 d/f.c 1''"
    by (simp add: copy_folder_request_def same_owner_def dec_def dec_nat.simps digit_def five snprintf_def)
  show ?thesis
    using copy_request_roundtrip [OF r, of sample_host]
    by (simp add: word_def isspace_def same_owner_def)
qed

definition archive_ss :: ss where
  "archive_ss = sample_ss\<lparr>disk := (disk sample_ss)(''d.zip'' \<mapsto> Regular ''PK.'')\<rparr>"

lemma folder_copy_overflows_witness:
  "wp (\<lambda>(r, s'). \<exists>ms. delivered s' = map (\<lambda>m. (Some (''10.0.0.2'', 6002), Text m)) ms \<and>
        replies (Conn 5) s' = [Text (''completed copying'' @ [CHR 0x00])])
     (copy_from_folder sample_host ''d 10.0.0.2 6002 g 0'' (Conn 5) archive_ss)"
proof -
  have scan: "scan_copy sample_host ''d 10.0.0.2 6002 g 0'' = Inr (''d'', ''10.0.0.2'', 6002, ''g'', 0)"
    by (simp add: scan_copy_def scanf_s_def scanf_d_def Let_def isspace_def isdigit_def)
  let ?s1 = "snd (zip_folder sample_host ''d'' archive_ss)"
  have split: "split_path ''d'' = ('''', ''d'')" by (simp add: split_path_def strrchr_def)
  have there: "e_getcwd sample_host tr = Some ''/srv''" "h_chdir sample_host tr k" "h_send sample_host tr" for tr k
    by (simp_all add: sample_host_def)
  have zip: "zip_folder sample_host ''d'' archive_ss = (True, ?s1)"
    by (simp add: zip_folder_def split there c_system_def Let_def)
  have frame: "disk ?s1 = disk archive_ss" "delivered ?s1 = []" "replies (Conn 5) ?s1 = []"
    by (simp_all add: zip_folder_def split there c_system_def c_chdir_def Let_def archive_ss_def delivered_def
        replies_def emit_def)
  have z: "file_content sample_host (''d'' @ ''.zip'') ?s1 = Some ''PK.''"
    by (simp add: file_content_Some frame) (simp add: archive_ss_def)
  have port: "htons 6002 = 6002" by (simp add: htons_def)
  show ?thesis
    using folder_copy_overflows [OF scan _ _ _ zip z, of 5] there frame port by (auto simp: port elim!: wp_mono)
qed

end
