(* ===== verification/Spec2Isabelle.thy ===== *)
theory Spec2Isabelle
  imports End_To_End
begin

text \<open>
  A network file system in C (\<open>src/nfs_project\<close>): a naming server, storage servers and clients.

  A client connects to the naming server and types commands. For \<open>read\<close>, \<open>write\<close>, \<open>info\<close> and
  \<open>stream\<close> the naming server answers with the record of the path (address and port of the storage
  server that has the file) and the client asks that server; \<open>create\<close>, \<open>delete\<close> and \<open>copy\<close> it
  forwards itself and repeats on, or queues for, the two backups of the owner. A storage server scans
  its home directory, registers the paths, sends heartbeats and serves clients, the naming server
  and other storage servers, each connection in a thread of its own.

  \<^bold>\<open>Foundations.\<close>
  \<^item> \<^theory_text>\<open>Nfs_Prelude\<close>: results that may be a fault of the C machine (overflow, NULL, unterminated
    array), their sequencing, and the two predicate transformers \<open>wp\<close> (no fault, and the result
    satisfies) and \<open>wlp\<close> (if no fault, the result satisfies).
  \<^item> \<^theory_text>\<open>CString\<close>: C strings and fixed arrays, \<open>strncpy\<close>, \<open>snprintf\<close>, \<open>strtok\<close>, \<open>strstr\<close>, \<open>sscanf\<close>,
    \<open>atoi\<close>, with their limits; \<^theory_text>\<open>Utils\<close>: the structs of \<open>common/utils.h\<close>.
  \<^item> \<^theory_text>\<open>World\<close>: the trace of system calls; what the rest of the world answers is an argument
    (\<open>env\<close>) of every operation. The locale \<open>state_relation\<close> carries a relation between states
    through sequencing; clients of it are \<^theory_text>\<open>SS_Relation\<close> and \<^theory_text>\<open>Client\<close>.

  \<^bold>\<open>Naming server\<close> (\<open>naming_server/naming_utils.c\<close>, \<open>naming_server/naming_server.c\<close>).
  \<^item> \<^theory_text>\<open>Cache\<close>: the array of eight entries; a refinement of a bounded list in order of recency
    (locale \<open>recency_cache\<close>). \<^theory_text>\<open>Path_Trie\<close>: the byte trie; a refinement of a finite map from paths
    to records (locale \<open>path_index\<close>). \<^theory_text>\<open>NM_State\<close>: the globals, and lookups through the cache, whose
    result is a pointer into the cache or the trie (locale \<open>cached_index\<close>).
  \<^item> \<^theory_text>\<open>NM_Servers\<close>, \<^theory_text>\<open>NM_Read\<close>, \<^theory_text>\<open>NM_Write\<close>, \<^theory_text>\<open>NM_Create\<close>, \<^theory_text>\<open>NM_Delete\<close>, \<^theory_text>\<open>NM_Copy\<close>,
    \<^theory_text>\<open>NM_Register\<close>, \<^theory_text>\<open>NM_Dispatch\<close>: one group of definitions per handler, with the guards and early
    returns of the code. \<^theory_text>\<open>Handler_Logic\<close> walks through all of them once, inside the locales
    \<open>io_relation\<close> and \<open>table_relation\<close>. \<^theory_text>\<open>NM_System\<close>: the threads, one run of a handler per step.
    A handler that waits for a storage server, or sleeps, lets other threads run in the code; that
    interleaving is not modelled. A handler with a fault ends the process (\<open>crashed\<close>).
  \<^item> Shown: the cache is transparent; the two tables with a guard keep their bounds in every reachable
    system, and the queues of commands, which have none, overflow (\<open>full_queue_crashes\<close>); the
    effect of each command on the known paths and its answers; which backups are assigned, written
    to, and replayed; and where the code departs from what it means to do.

  \<^bold>\<open>Storage server\<close> (\<open>storage_server/file_manager.c\<close>, \<open>storage_server/storage_server.c\<close>).
  \<^item> \<^theory_text>\<open>SS_Disk\<close>: the disk, a map from files to contents, and the calls on it; \<^theory_text>\<open>SS_Access\<close>: the tables
    of files being written and read; \<^theory_text>\<open>SS_Files\<close>: read, write, stream, info, create, delete, copy;
    \<^theory_text>\<open>SS_Folders\<close>: copies of folders; \<^theory_text>\<open>SS_Server\<close>: scan, registration and the request handlers.
  \<^item> \<^theory_text>\<open>SS_Relation\<close> walks through all handlers once (locales \<open>ss_relation\<close>, \<open>request_relation\<close>);
    \<^theory_text>\<open>SS_Requests\<close>: sequences of requests; \<^theory_text>\<open>SS_Threads\<close>: readers, writers and deleters as threads,
    interleaved between their critical sections and, for writers, behind each chunk.
  \<^item> Shown: reads send and writes append exactly the data; copies equal their source; the tables
    stay exact under every interleaving and a registered reader is respected; the scan lists the
    tree; and the ways a row of a table gets stuck.

  \<^bold>\<open>Client\<close> (\<open>clients/client.c\<close>): \<^theory_text>\<open>Client\<close>. \<^bold>\<open>Together\<close>: \<^theory_text>\<open>End_To_End\<close> runs the programs on each
  other's messages: commands end and are understood, a read shows the content of the file, registered
  paths and folder copy requests survive the wire. This theory adds the properties that speak
  about cache and lookups together.

  \<^bold>\<open>Conventions.\<close> A C string is the list of its bytes before the NUL. Ports and other \<open>int\<close>s that
  are only copied, compared or printed are \<^typ>\<open>int\<close>; \<open>htons\<close>, modes and sizes on the wire are
  computed at their width. A row behind the count of a table is never read, so a table is the list
  of its used rows. A receive takes one message, or its prefix that fits the buffer. Arrays never
  initialised have the content the environment says (\<open>e_junk\<close>).

  \<^bold>\<open>Bounds and fuel.\<close> The scan of the home directory takes its depth as fuel and the depth of the
  tree is enough (\<open>scan_directory_lists\<close>); the client's receiving loops take one unit per message
  and one more for the end (\<open>print_all_shows\<close>), so they end against every peer that closes
  (\<open>responsive\<close>, \<open>loop_ends\<close>). Every other loop is structural or has a measure;
  the spin loop of a waiting writer is modelled by its round, for it need not end.

  \<^bold>\<open>Not modelled.\<close> Text printed for the operator, the prompts of the client, \<open>malloc\<close> returning NULL,
  signals (a send to a closed connection, the log viewer bound to a signal), sleeping, the set-up of
  listening sockets and the accept loops, the creation of threads. Output of the \<open>stdio\<close> buffers
  counts as written when the call returns. Only regular files and folders exist on a disk, and no
  process but the server and the commands it runs changes it. What \<open>zip\<close>, \<open>unzip\<close>, \<open>mkdir\<close>, \<open>cp\<close>,
  \<open>trash-put\<close> and \<open>rm\<close> do to the disk is a parameter of the host. The address strings inside
  received structs are taken to be terminated. Threads of the storage server that copy folders or
  serve the naming server are modelled as uninterrupted requests. \<open>play.c\<close>, \<open>testip.c\<close> and \<open>a.c\<close>
  belong to no program of the system, and the remaining C files are empty.
\<close>

section \<open>The lookup cache\<close>

text \<open>
  C10: The three loops over the cache array implement a bounded list in order of recency: a
  lookup moves the hit to the front, an insertion puts a new entry in front and drops the
  eighth, a removal takes one entry out; the array stays well formed.
\<close>

theorem cache_refines_recency_list:
  assumes wf: "cache_wf c" and p: "length p < MAX_FILE_PATH_SIZE" and new: "q \<notin> fst ` set (live c)"
    and q: "length q < MAX_FILE_PATH_SIZE"
  shows "wp (\<lambda>(hit, c'). cache_wf c' \<and>
            (case lru_touch p (live c) of
               None \<Rightarrow> \<not> hit \<and> live c' = live c
             | Some l \<Rightarrow> hit \<and> live c' = l)) (find_in_cache p c) \<and>
    cache_wf (add_to_cache q v c) \<and> live (add_to_cache q v c) = lru_add q v (live c) \<and>
    wp (\<lambda>c'. cache_wf c' \<and> live c' = lru_remove p (live c)) (remove_from_cache p c)"
proof (intro conjI)
  show "wp (\<lambda>(hit, c'). cache_wf c' \<and>
            (case lru_touch p (live c) of
               None \<Rightarrow> \<not> hit \<and> live c' = live c
             | Some l \<Rightarrow> hit \<and> live c' = l)) (find_in_cache p c)"
    by (rule wp_mono [OF find_in_cache_wp [OF wf]]) (auto split: option.splits)
qed (use wf new q in \<open>simp_all add: add_to_cache_wf add_to_cache_live remove_from_cache_wp\<close>)

theorem cache_refines_recency_list_witness:
  "live (add_to_cache ''d'' dir_info empty_cache) = [(''d'', dir_info)]"
proof -
  have "''d'' \<notin> fst ` set (live empty_cache)" and "length ''d'' < MAX_FILE_PATH_SIZE" by simp_all
  from cache_refines_recency_list [OF cache_wf_empty this(2,1,2), of dir_info] show ?thesis
    by (simp add: lru_add_def)
qed

section \<open>Lookups\<close>

text \<open>A run of lookups, as the handlers of earlier requests made them.\<close>

fun lookups :: "string list \<Rightarrow> nm \<Rightarrow> nm result" where
  "lookups [] s = Inr s"
| "lookups (p # ps) s = andthen (find_file_info p s) (\<lambda>(_, s). lookups ps s)"

text \<open>
  C2: The cache is transparent: after any sequence of earlier lookups, a lookup returns a
  pointer that reads the record the trie has for the path, and NULL exactly when it has none;
  it never faults, and it changes no path.
\<close>

theorem lookups_transparent:
  assumes coh: "coherent s" and ps: "list_all path_ok ps" and p: "path_ok p"
  shows "wp (\<lambda>(r, s'). coherent s' \<and> file_trie s' = file_trie s \<and>
            (case info_at (file_trie s) p of
               None \<Rightarrow> r = None
             | Some v \<Rightarrow> \<exists>q. r = Some q \<and> deref s' q = Inr v))
           (andthen (lookups ps s) (\<lambda>s. find_file_info p s))"
  using coh ps
proof (induction ps arbitrary: s)
  case Nil
  show ?case
    unfolding lookups.simps andthen_Inr
    by (rule wp_mono [OF find_file_info_wp [OF Nil(1) p]]) (auto dest: same_but_cacheD)
next
  case (Cons a ps)
  then obtain r s1 where s1: "find_file_info a s = Inr (r, s1)" "coherent s1" "file_trie s1 = file_trie s"
    using find_file_info_wp [of s a] by (auto simp: wp_iff dest: same_but_cacheD(1))
  from Cons.IH [OF s1(2)] Cons.prems(2) s1(1,3) show ?case by simp
qed

theorem lookups_transparent_witness:
  "wp (\<lambda>(r, s'). \<exists>q. r = Some q \<and> deref s' q = Inr leaf_info)
     (andthen (lookups [''d'', ''nope''] sample_nm) (\<lambda>s. find_file_info ''d/f.c'' s))"
  using lookups_transparent [OF coherent_sample, of "[''d'', ''nope'']" "''d/f.c''"]
  by (auto elim!: wp_mono)

end
